theory Spec2Isabelle
  imports Main "HOL-Library.Sublist" "HOL-Library.AList"
begin

section \<open>The gateway watchdog (src/infra/gateway-watchdog.ts)\<close>

subsection \<open>Constants\<close>

definition MAX_RESTARTS_PER_HOUR :: int where
  "MAX_RESTARTS_PER_HOUR = 5"

definition STABLE_UPTIME_RESET_MS :: int where
  "STABLE_UPTIME_RESET_MS = 300000"

definition MAX_BACKOFF_MS :: int where
  "MAX_BACKOFF_MS = 60000"

definition INITIAL_BACKOFF_MS :: int where
  "INITIAL_BACKOFF_MS = 1000"

definition RESTART_WINDOW_MS :: int where
  "RESTART_WINDOW_MS = 3600000"

subsection \<open>Child argument vector\<close>

text \<open>
  \<^verbatim>\<open>argv.filter((arg) => arg !== "--watchdog")\<close>: a left-to-right scan that keeps an
  argument exactly when it differs from the marker.
\<close>

fun buildChildArgv :: "string list \<Rightarrow> string list" where
  "buildChildArgv [] = []"
| "buildChildArgv (arg # argv) =
     (if arg \<noteq> ''--watchdog'' then arg # buildChildArgv argv else buildChildArgv argv)"

definition WATCHDOG_CHILD_ENV :: string where
  "WATCHDOG_CHILD_ENV = ''OPENCLAW_WATCHDOG_CHILD''"

subsection \<open>Data model\<close>

datatype Status = Running | Restarting | GaveUp | Stopped

text \<open>
  \<^verbatim>\<open>WatchdogState\<close>. The numbers are process ids and a counter, modelled as integers;
  \<^verbatim>\<open>null\<close> is \<open>None\<close>.
\<close>

record WatchdogState =
  pid :: int
  childPid :: "int option"
  restarts :: int
  lastCrashAt :: "string option"
  startedAt :: string
  status :: Status

text \<open>
  \<^verbatim>\<open>WatchdogOptions\<close>: an omitted option is \<open>None\<close>. The two callbacks
  \<^verbatim>\<open>onChildExit\<close> and \<^verbatim>\<open>onGiveUp\<close> are observers; their invocations are
  recorded in the supervisor's \<open>childExits\<close> and \<open>giveUps\<close> below.
\<close>

record WatchdogOptions =
  argv :: "string list option"
  execPath :: "string option"
  execArgv :: "string list option"
  stateDir :: "string option"
  env :: "(string \<times> string) list option"
  maxRestartsPerHour :: "int option"
  stableUptimeMs :: "int option"

text \<open>The part of Node's \<^verbatim>\<open>process\<close> object that the supervisor reads.\<close>

record Process =
  processPid :: int
  processExecPath :: string
  processExecArgv :: "string list"
  processArgv :: "string list"
  processEnv :: "(string \<times> string) list"

datatype NodeSignal = SIGTERM | SIGINT

text \<open>
  The \<^verbatim>\<open>ChildProcess\<close> handle returned by \<^verbatim>\<open>spawn\<close>: its \<^verbatim>\<open>pid\<close>
  (\<^verbatim>\<open>undefined\<close> when the spawn failed), its \<^verbatim>\<open>killed\<close> flag, whether its
  \<^verbatim>\<open>exit\<close> event has been emitted, and the signals \<^verbatim>\<open>kill\<close> was called with.
\<close>

record ChildProcess =
  cpid :: "int option"
  killed :: bool
  exited :: bool
  killCalls :: "NodeSignal list"

text \<open>
  \<^verbatim>\<open>child.kill(signal)\<close> is Node's: the call sends the signal when the process is
  there (it was spawned and has not exited) and then sets \<^verbatim>\<open>killed\<close>; \<^verbatim>\<open>killed\<close>
  says that a signal was sent, not that the process has terminated. On a handle whose
  process is gone the call sends nothing and leaves \<^verbatim>\<open>killed\<close> as it was.
\<close>

definition kill :: "ChildProcess \<Rightarrow> NodeSignal \<Rightarrow> ChildProcess" where
  "kill c sig =
     c\<lparr>killCalls := killCalls c @ [sig],
       killed := (killed c \<or> (cpid c \<noteq> None \<and> \<not> exited c))\<rparr>"

record SpawnCall =
  spawnPath :: string
  spawnArgs :: "string list"
  spawnEnv :: "(string \<times> string) list"

text \<open>The log sites of the supervisor, each with the values its message interpolates.\<close>

datatype LogEntry =
    LogSigterm
  | LogSigint
  | LogChildError string
  | LogSpawned "int option"
  | LogCleanExit bool "int option" "string option"
  | LogCrashed "int option" "string option"
  | LogGivingUp int
  | LogRestarting int int

text \<open>
  The variables that the closures of \<^verbatim>\<open>startGatewayWatchdog\<close> share
  (\<open>state\<close> to \<open>shuttingDown\<close>), and what the run does to its surroundings: whether the
  two signal listeners are registered, the delay of the pending \<^verbatim>\<open>setTimeout\<close>,
  whether the promise has been resolved, and, each in call order, the states handed to
  \<^verbatim>\<open>writeWatchdogState\<close>, the \<^verbatim>\<open>spawn\<close> calls, the delays handed to
  \<^verbatim>\<open>setTimeout\<close>, the calls of the two hooks and the log.
\<close>

record Watchdog =
  state :: WatchdogState
  restartTimestamps :: "int list"
  backoffMs :: int
  child :: "ChildProcess option"
  childStartedAt :: int
  shuttingDown :: bool
  listening :: bool
  timer :: "int option"
  resolved :: bool
  written :: "WatchdogState list"
  spawns :: "SpawnCall list"
  timeouts :: "int list"
  childExits :: "(int option \<times> string option) list"
  giveUps :: nat
  logs :: "LogEntry list"

text \<open>
  What reaches the supervisor from outside. A child's \<^verbatim>\<open>exit\<close> event carries the
  exit code, the signal, and the clock as the handler reads it: the ISO time of
  \<^verbatim>\<open>new Date()\<close> and the three readings of \<^verbatim>\<open>Date.now()\<close> (for the uptime, in
  \<^verbatim>\<open>isRateLimited\<close>, and for the pushed timestamp). The firing of the restart timer
  carries what the new \<^verbatim>\<open>spawn\<close> returns as pid and the reading of
  \<^verbatim>\<open>Date.now()\<close> that becomes \<^verbatim>\<open>childStartedAt\<close>.
\<close>

datatype Event =
    ChildExit "int option" "string option" string int int int
  | ChildError string
  | Signal NodeSignal
  | TimerFired "int option" int

subsection \<open>The closures of startGatewayWatchdog\<close>

definition maxRestarts :: "WatchdogOptions \<Rightarrow> int" where
  "maxRestarts opts =
     (case maxRestartsPerHour opts of Some n \<Rightarrow> n | None \<Rightarrow> MAX_RESTARTS_PER_HOUR)"

definition stableUptime :: "WatchdogOptions \<Rightarrow> int" where
  "stableUptime opts =
     (case stableUptimeMs opts of Some n \<Rightarrow> n | None \<Rightarrow> STABLE_UPTIME_RESET_MS)"

text \<open>The call \<^verbatim>\<open>writeWatchdogState(state, opts.stateDir)\<close>, recorded with its argument.\<close>

definition persist :: "Watchdog \<Rightarrow> Watchdog" where
  "persist w = w\<lparr>written := written w @ [state w]\<rparr>"

definition forwardSignal :: "NodeSignal \<Rightarrow> Watchdog \<Rightarrow> Watchdog" where
  "forwardSignal sig w =
     (case child w of
        None \<Rightarrow> w
      | Some c \<Rightarrow> if \<not> killed c then w\<lparr>child := Some (kill c sig)\<rparr> else w)"

definition onSigterm :: "Watchdog \<Rightarrow> Watchdog" where
  "onSigterm w =
     forwardSignal SIGTERM (w\<lparr>logs := logs w @ [LogSigterm], shuttingDown := True\<rparr>)"

definition onSigint :: "Watchdog \<Rightarrow> Watchdog" where
  "onSigint w =
     forwardSignal SIGINT (w\<lparr>logs := logs w @ [LogSigint], shuttingDown := True\<rparr>)"

definition cleanup :: "Watchdog \<Rightarrow> Watchdog" where
  "cleanup w =
     (let w1 = w\<lparr>listening := False\<rparr>;
          w2 = (if status (state w1) \<noteq> GaveUp
                then w1\<lparr>state := (state w1)\<lparr>status := Stopped\<rparr>\<rparr> else w1);
          w3 = w2\<lparr>state := (state w2)\<lparr>childPid := None\<rparr>\<rparr>
      in persist w3)"

text \<open>
  \<^verbatim>\<open>spawnChild\<close>; \<open>spawnedPid\<close> is the \<^verbatim>\<open>pid\<close> of the handle that
  \<^verbatim>\<open>spawn\<close> returns. The child's environment is \<^verbatim>\<open>{ ...env, [WATCHDOG_CHILD_ENV]: "1" }\<close>.
\<close>

definition spawnChild ::
  "WatchdogOptions \<Rightarrow> Process \<Rightarrow> int option \<Rightarrow> Watchdog \<Rightarrow> ChildProcess \<times> Watchdog" where
  "spawnChild opts pr spawnedPid w =
     (let path = (case execPath opts of Some p \<Rightarrow> p | None \<Rightarrow> processExecPath pr);
          eargv = (case execArgv opts of Some a \<Rightarrow> a | None \<Rightarrow> processExecArgv pr);
          rawArgv = (case argv opts of Some a \<Rightarrow> a | None \<Rightarrow> drop 1 (processArgv pr));
          childArgv = buildChildArgv rawArgv;
          args = eargv @ childArgv;
          e = (case env opts of Some e \<Rightarrow> e | None \<Rightarrow> processEnv pr);
          childEnv = AList.update WATCHDOG_CHILD_ENV ''1'' e;
          spawned = \<lparr>cpid = spawnedPid, killed = False, exited = False, killCalls = []\<rparr>;
          w1 = w\<lparr>spawns := spawns w
                  @ [\<lparr>spawnPath = path, spawnArgs = args, spawnEnv = childEnv\<rparr>]\<rparr>;
          w2 = w1\<lparr>state := (state w1)\<lparr>childPid := spawnedPid\<rparr>\<rparr>;
          w3 = w2\<lparr>state := (state w2)\<lparr>status := Running\<rparr>\<rparr>;
          w4 = persist w3;
          w5 = w4\<lparr>logs := logs w4 @ [LogSpawned spawnedPid]\<rparr>
      in (spawned, w5))"

text \<open>The \<^verbatim>\<open>while\<close> loop of \<^verbatim>\<open>isRateLimited\<close>: it shifts the head while the head is too old.\<close>

fun pruneTimestamps :: "int \<Rightarrow> int list \<Rightarrow> int list" where
  "pruneTimestamps now [] = []"
| "pruneTimestamps now (t # ts) =
     (if now - t > RESTART_WINDOW_MS then pruneTimestamps now ts else t # ts)"

definition isRateLimited :: "WatchdogOptions \<Rightarrow> int \<Rightarrow> Watchdog \<Rightarrow> bool \<times> Watchdog" where
  "isRateLimited opts now w =
     (let w1 = w\<lparr>restartTimestamps := pruneTimestamps now (restartTimestamps w)\<rparr>
      in (int (length (restartTimestamps w1)) \<ge> maxRestarts opts, w1))"

definition runChild ::
  "WatchdogOptions \<Rightarrow> Process \<Rightarrow> int option \<Rightarrow> int \<Rightarrow> Watchdog \<Rightarrow> Watchdog" where
  "runChild opts pr spawnedPid now w =
     (let (c, w1) = spawnChild opts pr spawnedPid w
      in w1\<lparr>child := Some c, childStartedAt := now\<rparr>)"

text \<open>The listener of the child's \<^verbatim>\<open>exit\<close> event.\<close>

definition onExit ::
  "WatchdogOptions \<Rightarrow> int option \<Rightarrow> string option \<Rightarrow> string \<Rightarrow> int \<Rightarrow> int \<Rightarrow> int
     \<Rightarrow> Watchdog \<Rightarrow> Watchdog" where
  "onExit opts code signal isoNow uptimeNow checkNow pushNow w =
     (let w0 = w\<lparr>childExits := childExits w @ [(code, signal)]\<rparr> in
      if shuttingDown w0 \<or> code = Some 0 then
        let w1 = w0\<lparr>logs := logs w0 @ [LogCleanExit (shuttingDown w0) code signal]\<rparr>;
            w2 = cleanup w1
        in w2\<lparr>resolved := True\<rparr>
      else
        let w1 = w0\<lparr>logs := logs w0 @ [LogCrashed code signal]\<rparr>;
            w2 = w1\<lparr>state := (state w1)\<lparr>lastCrashAt := Some isoNow\<rparr>\<rparr>;
            uptime = uptimeNow - childStartedAt w2;
            w3 = (if uptime \<ge> stableUptime opts
                  then w2\<lparr>backoffMs := INITIAL_BACKOFF_MS\<rparr> else w2);
            (limited, w4) = isRateLimited opts checkNow w3
        in if limited then
             let w5 = w4\<lparr>logs := logs w4 @ [LogGivingUp (maxRestarts opts)]\<rparr>;
                 w6 = w5\<lparr>state := (state w5)\<lparr>status := GaveUp\<rparr>\<rparr>;
                 w7 = w6\<lparr>state := (state w6)\<lparr>childPid := None\<rparr>\<rparr>;
                 w8 = persist w7;
                 w9 = w8\<lparr>giveUps := Suc (giveUps w8)\<rparr>;
                 w10 = cleanup w9
             in w10\<lparr>resolved := True\<rparr>
           else
             let w5 = w4\<lparr>restartTimestamps := restartTimestamps w4 @ [pushNow]\<rparr>;
                 w6 = w5\<lparr>state := (state w5)\<lparr>restarts := restarts (state w5) + 1\<rparr>\<rparr>;
                 w7 = w6\<lparr>state := (state w6)\<lparr>status := Restarting\<rparr>\<rparr>;
                 w8 = persist w7;
                 w9 = w8\<lparr>logs := logs w8
                         @ [LogRestarting (backoffMs w8) (restarts (state w8))]\<rparr>;
                 w10 = w9\<lparr>timer := Some (backoffMs w9),
                          timeouts := timeouts w9 @ [backoffMs w9]\<rparr>
             in w10\<lparr>backoffMs := min (backoffMs w10 * 2) MAX_BACKOFF_MS\<rparr>)"

text \<open>The callback of \<^verbatim>\<open>setTimeout\<close>.\<close>

definition onTimeout ::
  "WatchdogOptions \<Rightarrow> Process \<Rightarrow> int option \<Rightarrow> int \<Rightarrow> Watchdog \<Rightarrow> Watchdog" where
  "onTimeout opts pr spawnedPid now w =
     (if shuttingDown w then (cleanup w)\<lparr>resolved := True\<rparr>
      else runChild opts pr spawnedPid now w)"

subsection \<open>Events and runs\<close>

text \<open>
  One event of the run. An event that cannot occur leaves the supervisor as it is: a
  child emits \<^verbatim>\<open>exit\<close> once, the timer fires only while it is pending, and the
  signal handlers run only while they are registered. The \<^verbatim>\<open>error\<close> listener of a
  child only logs.
\<close>

fun step :: "WatchdogOptions \<Rightarrow> Process \<Rightarrow> Watchdog \<Rightarrow> Event \<Rightarrow> Watchdog" where
  "step opts pr w (ChildExit code signal isoNow uptimeNow checkNow pushNow) =
     (case child w of
        None \<Rightarrow> w
      | Some c \<Rightarrow>
          if exited c then w
          else onExit opts code signal isoNow uptimeNow checkNow pushNow
                 (w\<lparr>child := Some (c\<lparr>exited := True\<rparr>)\<rparr>))"
| "step opts pr w (ChildError err) =
     (case child w of
        None \<Rightarrow> w
      | Some c \<Rightarrow> w\<lparr>logs := logs w @ [LogChildError err]\<rparr>)"
| "step opts pr w (Signal sig) =
     (if listening w
      then (case sig of SIGTERM \<Rightarrow> onSigterm w | SIGINT \<Rightarrow> onSigint w)
      else w)"
| "step opts pr w (TimerFired spawnedPid now) =
     (case timer w of
        None \<Rightarrow> w
      | Some d \<Rightarrow> onTimeout opts pr spawnedPid now (w\<lparr>timer := None\<rparr>))"

fun run :: "WatchdogOptions \<Rightarrow> Process \<Rightarrow> Watchdog \<Rightarrow> Event list \<Rightarrow> Watchdog" where
  "run opts pr w [] = w"
| "run opts pr w (ev # evs) = run opts pr (step opts pr w ev) evs"

text \<open>
  \<^verbatim>\<open>startGatewayWatchdog\<close> up to the return of the promise. The predicate
  \<^verbatim>\<open>isLikelySupervisedProcess\<close> (process-respawn.js) is a parameter. \<open>None\<close>: a
  supervised environment, the function returns at once, with no state written and no
  child. Otherwise the state is written, the listeners are registered and the first
  child is spawned; \<open>isoNow\<close> is the time of \<^verbatim>\<open>new Date()\<close>, \<open>spawnedPid\<close> and
  \<open>now\<close> are as in \<open>TimerFired\<close>.
\<close>

definition startGatewayWatchdog ::
  "((string \<times> string) list \<Rightarrow> bool) \<Rightarrow> WatchdogOptions \<Rightarrow> Process \<Rightarrow> string
     \<Rightarrow> int option \<Rightarrow> int \<Rightarrow> Watchdog option" where
  "startGatewayWatchdog isLikelySupervisedProcess opts pr isoNow spawnedPid now =
     (let e = (case env opts of Some e \<Rightarrow> e | None \<Rightarrow> processEnv pr) in
      if isLikelySupervisedProcess e then None
      else
        let w0 = \<lparr>state = \<lparr>pid = processPid pr, childPid = None, restarts = 0,
                            lastCrashAt = None, startedAt = isoNow, status = Running\<rparr>,
                  restartTimestamps = [], backoffMs = INITIAL_BACKOFF_MS, child = None,
                  childStartedAt = 0, shuttingDown = False, listening = False,
                  timer = None, resolved = False, written = [], spawns = [],
                  timeouts = [], childExits = [], giveUps = 0, logs = []\<rparr>;
            w1 = persist w0;
            w2 = w1\<lparr>listening := True\<rparr>
        in Some (runChild opts pr spawnedPid now w2))"

text \<open>The states of the runs of one configuration.\<close>

inductive reachable :: "WatchdogOptions \<Rightarrow> Process \<Rightarrow> Watchdog \<Rightarrow> bool"
  for opts :: WatchdogOptions and pr :: Process where
  reachable_start:
    "startGatewayWatchdog supervised opts pr isoNow spawnedPid now = Some w \<Longrightarrow> reachable opts pr w"
| reachable_step:
    "reachable opts pr w \<Longrightarrow> reachable opts pr (step opts pr w ev)"

subsection \<open>Phases of a run\<close>

text \<open>A child has been spawned and its \<^verbatim>\<open>exit\<close> event is still to come.\<close>

definition childRunning :: "Watchdog \<Rightarrow> bool" where
  "childRunning w = (case child w of None \<Rightarrow> False | Some c \<Rightarrow> \<not> exited c)"

text \<open>
  The three phases: a child is being watched; the restart timer is pending; the promise
  has been resolved.
\<close>

definition awaiting :: "Watchdog \<Rightarrow> bool" where
  "awaiting w = (childRunning w \<and> timer w = None \<and> \<not> resolved w \<and> listening w
     \<and> status (state w) = Running \<and> giveUps w = 0)"

definition delaying :: "Watchdog \<Rightarrow> bool" where
  "delaying w = (\<not> childRunning w \<and> timer w \<noteq> None \<and> \<not> resolved w \<and> listening w
     \<and> status (state w) = Restarting \<and> giveUps w = 0)"

definition finished :: "Watchdog \<Rightarrow> bool" where
  "finished w = (\<not> childRunning w \<and> timer w = None \<and> resolved w \<and> \<not> listening w
     \<and> childPid (state w) = None \<and> written w \<noteq> [] \<and> last (written w) = state w
     \<and> (status (state w) = Stopped \<and> giveUps w = 0
         \<or> status (state w) = GaveUp \<and> giveUps w = 1))"

subsection \<open>Crash-and-restart traces\<close>

text \<open>
  One crash of a child as the run sees it: the arguments of its \<^verbatim>\<open>exit\<close> event and,
  for the restart that follows it (if one does), the arguments of the timer's firing.
\<close>

record Crash =
  crashCode :: "int option"
  crashSignal :: "string option"
  crashIso :: string
  crashUptimeAt :: int
  crashCheckAt :: int
  crashPushAt :: int
  respawnPid :: "int option"
  respawnAt :: int

definition exitOf :: "Crash \<Rightarrow> Event" where
  "exitOf c = ChildExit (crashCode c) (crashSignal c) (crashIso c)
                (crashUptimeAt c) (crashCheckAt c) (crashPushAt c)"

definition timerOf :: "Crash \<Rightarrow> Event" where
  "timerOf c = TimerFired (respawnPid c) (respawnAt c)"

text \<open>Crashes in a row, each followed by the firing of the restart timer.\<close>

fun cycles :: "Crash list \<Rightarrow> Event list" where
  "cycles [] = []"
| "cycles (c # cs) = exitOf c # timerOf c # cycles cs"

subsection \<open>A concrete run\<close>

text \<open>
  The configuration of the repository's test of giving up: a cap of two restarts, a
  child with pid 9999, and three crashes with exit code 1 a few seconds apart.
\<close>

definition example_opts :: WatchdogOptions where
  "example_opts = \<lparr>argv = Some [''gateway'', ''run'', ''--watchdog''],
     execPath = Some ''/usr/bin/node'', execArgv = Some [], stateDir = Some ''/tmp/wd'',
     env = Some [], maxRestartsPerHour = Some 2, stableUptimeMs = None\<rparr>"

definition example_process :: Process where
  "example_process = \<lparr>processPid = 4242, processExecPath = ''/usr/bin/node'',
     processExecArgv = [], processArgv = [''node'', ''openclaw'', ''gateway'', ''--watchdog''],
     processEnv = []\<rparr>"

definition example_start :: Watchdog where
  "example_start =
     the (startGatewayWatchdog (\<lambda>e. False) example_opts example_process
            ''2026-02-25T00:00:00.000Z'' (Some 9999) 0)"

definition example_crash1 :: Crash where
  "example_crash1 = \<lparr>crashCode = Some 1, crashSignal = None,
     crashIso = ''2026-02-25T00:00:00.010Z'', crashUptimeAt = 10, crashCheckAt = 10,
     crashPushAt = 10, respawnPid = Some 10000, respawnAt = 1010\<rparr>"

definition example_crash2 :: Crash where
  "example_crash2 = \<lparr>crashCode = Some 1, crashSignal = None,
     crashIso = ''2026-02-25T00:00:01.020Z'', crashUptimeAt = 1020, crashCheckAt = 1020,
     crashPushAt = 1020, respawnPid = Some 10001, respawnAt = 3020\<rparr>"

definition example_crash3 :: Crash where
  "example_crash3 = \<lparr>crashCode = Some 1, crashSignal = None,
     crashIso = ''2026-02-25T00:00:03.030Z'', crashUptimeAt = 3030, crashCheckAt = 3030,
     crashPushAt = 3030, respawnPid = None, respawnAt = 0\<rparr>"

definition example_gave_up :: Watchdog where
  "example_gave_up =
     run example_opts example_process example_start
       (cycles [example_crash1, example_crash2] @ [exitOf example_crash3])"

text \<open>The example run after its first crash and restart.\<close>

definition example_restarted :: Watchdog where
  "example_restarted = run example_opts example_process example_start (cycles [example_crash1])"

text \<open>Whether an event is a child's \<^verbatim>\<open>exit\<close> event.\<close>

fun isExit :: "Event \<Rightarrow> bool" where
  "isExit (ChildExit code sg isoT tu tc tp) = True"
| "isExit (ChildError err) = False"
| "isExit (Signal sig) = False"
| "isExit (TimerFired p now) = False"

text \<open>The example run while its first restart is pending.\<close>

definition example_delaying :: Watchdog where
  "example_delaying = step example_opts example_process example_start (exitOf example_crash1)"

text \<open>The backoff delay in effect when the crash \<open>c\<close> is handled in \<open>w\<close>.\<close>

definition usedDelay :: "WatchdogOptions \<Rightarrow> Watchdog \<Rightarrow> Crash \<Rightarrow> int" where
  "usedDelay opts w c =
     (if crashUptimeAt c - childStartedAt w \<ge> stableUptime opts
      then INITIAL_BACKOFF_MS else backoffMs w)"

text \<open>
  The delays as the spec's backoff policy words them: the delay of a restart is the
  current value \<open>d\<close>, or 1000 when the child that crashed had been up for the stability
  threshold or longer; after it is used it is doubled, capped at 60000, for the crash
  that follows. \<open>t0\<close> is the time at which the crashing child was spawned.
\<close>

fun spec_backoff_delays :: "WatchdogOptions \<Rightarrow> int \<Rightarrow> int \<Rightarrow> Crash list \<Rightarrow> int list" where
  "spec_backoff_delays opts d t0 [] = []"
| "spec_backoff_delays opts d t0 (c # cs) =
     (let used = (if crashUptimeAt c - t0 \<ge> stableUptime opts then 1000 else d)
      in used # spec_backoff_delays opts (min (used * 2) 60000) (respawnAt c) cs)"

text \<open>Every child of the trace crashes before it has been up for the stability threshold.\<close>

fun allUnstable :: "WatchdogOptions \<Rightarrow> int \<Rightarrow> Crash list \<Rightarrow> bool" where
  "allUnstable opts t0 [] = True"
| "allUnstable opts t0 (c # cs) =
     (crashUptimeAt c - t0 < stableUptime opts \<and> allUnstable opts (respawnAt c) cs)"

text \<open>
  Eight crashes, each one second after the spawn of its child and each restarted when
  its backoff delay has passed: the pairs are the time of the crash and the time of the
  restart.
\<close>

definition example_rapid :: "Crash list" where
  "example_rapid = map (\<lambda>(crashAt, restartAt). \<lparr>crashCode = Some 1, crashSignal = None,
     crashIso = ''2026-02-25T00:00:00.000Z'', crashUptimeAt = crashAt,
     crashCheckAt = crashAt, crashPushAt = crashAt,
     respawnPid = Some 10000, respawnAt = restartAt\<rparr>)
     [(1000, 2000), (3000, 5000), (6000, 10000), (11000, 19000), (20000, 36000),
      (37000, 69000), (70000, 130000), (131000, 191000)]"

text \<open>The example configuration with a cap of eight restarts, and the start of its run.\<close>

definition example_opts8 :: WatchdogOptions where
  "example_opts8 = example_opts\<lparr>maxRestartsPerHour := Some 8\<rparr>"

definition example_start8 :: Watchdog where
  "example_start8 =
     the (startGatewayWatchdog (\<lambda>e. False) example_opts8 example_process
            ''2026-02-25T00:00:00.000Z'' (Some 9999) 0)"

text \<open>
  The crashes after the first are all checked within the rate-limit window of the first
  crash's restart timestamp.
\<close>

fun withinWindow :: "Crash list \<Rightarrow> bool" where
  "withinWindow [] = True"
| "withinWindow (c # cs) =
     (\<forall>d\<in>set cs. crashCheckAt d - crashPushAt c \<le> RESTART_WINDOW_MS)"

subsection \<open>The state store\<close>

text \<open>What a call can throw: an error of the file system, or the SyntaxError of \<^verbatim>\<open>JSON.parse\<close>.\<close>

datatype Exception = ENOENT | EACCES | SyntaxError

text \<open>
  The file system as the state store uses it: the regular files by path, and the paths
  at which it refuses to create a directory or to write a file. Directories are not
  recorded: a file is read by its path alone.
\<close>

record FileSystem =
  files :: "string \<rightharpoonup> string"
  refused :: "string \<Rightarrow> bool"

definition readFileSync :: "FileSystem \<Rightarrow> string \<Rightarrow> Exception + string" where
  "readFileSync fs p = (case files fs p of None \<Rightarrow> Inl ENOENT | Some content \<Rightarrow> Inr content)"



text \<open>
  What the state store takes from outside this file: Node's \<^verbatim>\<open>path.join\<close> and
  \<^verbatim>\<open>path.dirname\<close>, and the directory that \<^verbatim>\<open>resolveStateDir()\<close>
  (config/paths.js) returns.
\<close>

record Platform =
  pathJoin :: "string \<Rightarrow> string \<Rightarrow> string"
  pathDirname :: "string \<Rightarrow> string"
  resolveStateDir :: string

definition resolveWatchdogStatePath :: "Platform \<Rightarrow> string option \<Rightarrow> string" where
  "resolveWatchdogStatePath pf dir =
     (let d = (case dir of Some d \<Rightarrow> d | None \<Rightarrow> resolveStateDir pf)
      in pathJoin pf d ''watchdog.json'')"


text \<open>
  \<^verbatim>\<open>readWatchdogState\<close>, with \<^verbatim>\<open>JSON.parse\<close> as the parameter \<open>parse\<close>. A
  result \<open>Inl\<close> would be an exception that leaves the function; \<open>Inr None\<close> is
  \<^verbatim>\<open>null\<close>. The cast \<^verbatim>\<open>as WatchdogState\<close> checks nothing: the value returned
  is the parsed value.
\<close>

definition readWatchdogState ::
  "Platform \<Rightarrow> (string \<Rightarrow> Exception + 'v) \<Rightarrow> string option \<Rightarrow> FileSystem
     \<Rightarrow> Exception + 'v option" where
  "readWatchdogState pf parse dir fs =
     (let statePath = resolveWatchdogStatePath pf dir in
      case (case readFileSync fs statePath of
              Inl err \<Rightarrow> Inl err
            | Inr content \<Rightarrow> parse content) of
        Inl err \<Rightarrow> Inr None
      | Inr v \<Rightarrow> Inr (Some v))"

text \<open>A platform, a file system and a parser for examples.\<close>

definition example_platform :: Platform where
  "example_platform = \<lparr>pathJoin = (\<lambda>d f. d @ ''/'' @ f),
     pathDirname = (\<lambda>p. rev (tl (dropWhile (\<lambda>c. c \<noteq> CHR ''/'') (rev p)))),
     resolveStateDir = ''/home/user/.openclaw''\<rparr>"

definition example_files :: FileSystem where
  "example_files = \<lparr>files = [''/tmp/wd/watchdog.json'' \<mapsto> ''not json'',
       ''/tmp/ok/watchdog.json'' \<mapsto> ''42''],
     refused = (\<lambda>p. False)\<rparr>"

definition example_parse :: "string \<Rightarrow> Exception + int" where
  "example_parse content = (if content = ''42'' then Inr 42 else Inl SyntaxError)"

subsection \<open>JSON\<close>












































section \<open>Properties\<close>

subsection \<open>Child argument vector\<close>

lemma buildChildArgv_filter:
  "buildChildArgv av = filter (\<lambda>arg. arg \<noteq> ''--watchdog'') av"
  by (induction av) simp_all

lemma buildChildArgv_subseq: "subseq (buildChildArgv av) av"
  by (simp add: buildChildArgv_filter)

lemma buildChildArgv_length:
  "length (buildChildArgv av) + count_list av ''--watchdog'' = length av"
  by (induction av) simp_all

lemma buildChildArgv_count_marker: "count_list (buildChildArgv av) ''--watchdog'' = 0"
  by (induction av) simp_all

lemma buildChildArgv_count_other:
  "a \<noteq> ''--watchdog'' \<Longrightarrow> count_list (buildChildArgv av) a = count_list av a"
  by (induction av) simp_all

lemma buildChildArgv_count:
  "count_list (buildChildArgv av) a = (if a = ''--watchdog'' then 0 else count_list av a)"
  using buildChildArgv_count_marker buildChildArgv_count_other by simp

text \<open>
  C6. For every argument vector, the result of \<open>buildChildArgv\<close> never contains the
  marker \<open>--watchdog\<close>, wherever and however often it occurs in the input; the result is
  the input with some positions deleted (so the surviving arguments are unchanged and keep
  their relative order); the number of deleted positions is the number of occurrences of
  the marker, so exactly the marker's occurrences are removed; and every other string,
  also one that merely contains the marker, occurs as often as before.
\<close>

theorem buildChildArgv_strips_exactly_marker:
  "''--watchdog'' \<notin> set (buildChildArgv av)
   \<and> subseq (buildChildArgv av) av
   \<and> length (buildChildArgv av) + count_list av ''--watchdog'' = length av
   \<and> count_list (buildChildArgv av) a
       = (if a = ''--watchdog'' then 0 else count_list av a)"
proof -
  have "''--watchdog'' \<notin> set (buildChildArgv av)"
    by (simp add: buildChildArgv_filter)
  then show ?thesis
    using buildChildArgv_subseq buildChildArgv_length buildChildArgv_count by blast
qed

subsection \<open>Phases of a run\<close>

lemmas handler_defs = onExit_def onTimeout_def onSigterm_def onSigint_def forwardSignal_def
  cleanup_def persist_def isRateLimited_def runChild_def spawnChild_def kill_def

lemma start_awaiting:
  "startGatewayWatchdog supervised opts pr isoNow spawnedPid now = Some w \<Longrightarrow> awaiting w"
  by (auto simp: startGatewayWatchdog_def awaiting_def childRunning_def handler_defs Let_def split: if_splits)

lemma onExit_clean:
  "shuttingDown w \<or> code = Some 0 \<Longrightarrow>
   onExit opts code sg isoT tu tc tp w =
     (cleanup (w\<lparr>childExits := childExits w @ [(code, sg)],
                 logs := logs w @ [LogCleanExit (shuttingDown w) code sg]\<rparr>))\<lparr>resolved := True\<rparr>"
  by (simp add: onExit_def Let_def)

lemma onExit_give_up:
  "\<not> shuttingDown w \<Longrightarrow> code \<noteq> Some 0 \<Longrightarrow>
   maxRestarts opts \<le> int (length (pruneTimestamps tc (restartTimestamps w))) \<Longrightarrow>
   onExit opts code sg isoT tu tc tp w =
     w\<lparr>state := (state w)\<lparr>lastCrashAt := Some isoT, status := GaveUp, childPid := None\<rparr>,
       restartTimestamps := pruneTimestamps tc (restartTimestamps w),
       backoffMs := (if tu - childStartedAt w \<ge> stableUptime opts
                     then INITIAL_BACKOFF_MS else backoffMs w),
       listening := False,
       resolved := True,
       written := written w
         @ [(state w)\<lparr>lastCrashAt := Some isoT, status := GaveUp, childPid := None\<rparr>,
            (state w)\<lparr>lastCrashAt := Some isoT, status := GaveUp, childPid := None\<rparr>],
       childExits := childExits w @ [(code, sg)],
       giveUps := Suc (giveUps w),
       logs := logs w @ [LogCrashed code sg, LogGivingUp (maxRestarts opts)]\<rparr>"
  by (simp add: onExit_def isRateLimited_def cleanup_def persist_def Let_def)

lemma onExit_restart:
  "\<not> shuttingDown w \<Longrightarrow> code \<noteq> Some 0 \<Longrightarrow>
   int (length (pruneTimestamps tc (restartTimestamps w))) < maxRestarts opts \<Longrightarrow>
   onExit opts code sg isoT tu tc tp w =
     w\<lparr>state := (state w)\<lparr>lastCrashAt := Some isoT, restarts := restarts (state w) + 1,
                            status := Restarting\<rparr>,
       restartTimestamps := pruneTimestamps tc (restartTimestamps w) @ [tp],
       backoffMs := min ((if tu - childStartedAt w \<ge> stableUptime opts
                          then INITIAL_BACKOFF_MS else backoffMs w) * 2) MAX_BACKOFF_MS,
       timer := Some (if tu - childStartedAt w \<ge> stableUptime opts
                      then INITIAL_BACKOFF_MS else backoffMs w),
       written := written w
         @ [(state w)\<lparr>lastCrashAt := Some isoT, restarts := restarts (state w) + 1,
                       status := Restarting\<rparr>],
       timeouts := timeouts w @ [if tu - childStartedAt w \<ge> stableUptime opts
                                 then INITIAL_BACKOFF_MS else backoffMs w],
       childExits := childExits w @ [(code, sg)],
       logs := logs w @ [LogCrashed code sg,
                 LogRestarting (if tu - childStartedAt w \<ge> stableUptime opts
                                then INITIAL_BACKOFF_MS else backoffMs w)
                   (restarts (state w) + 1)]\<rparr>"
  by (simp add: onExit_def isRateLimited_def persist_def Let_def)

lemma onExit_cases:
  obtains "shuttingDown w \<or> code = Some 0"
  | "\<not> shuttingDown w" "code \<noteq> Some 0"
      "maxRestarts opts \<le> int (length (pruneTimestamps tc (restartTimestamps w)))"
  | "\<not> shuttingDown w" "code \<noteq> Some 0"
      "int (length (pruneTimestamps tc (restartTimestamps w))) < maxRestarts opts"
  by linarith

lemma cleanup_finished:
  "\<not> childRunning w \<Longrightarrow> timer w = None \<Longrightarrow>
   status (state w) \<noteq> GaveUp \<and> giveUps w = 0 \<or> status (state w) = GaveUp \<and> giveUps w = 1 \<Longrightarrow>
   finished ((cleanup w)\<lparr>resolved := True\<rparr>)"
  by (auto simp: finished_def childRunning_def cleanup_def persist_def Let_def)

lemma exit_awaiting:
  assumes "awaiting w" "child w = Some c"
  shows "delaying (onExit opts code sg isoT tu tc tp (w\<lparr>child := Some (c\<lparr>exited := True\<rparr>)\<rparr>))
    \<or> finished (onExit opts code sg isoT tu tc tp (w\<lparr>child := Some (c\<lparr>exited := True\<rparr>)\<rparr>))"
proof (cases rule: onExit_cases [where w = "w\<lparr>child := Some (c\<lparr>exited := True\<rparr>)\<rparr>" and code = code and opts = opts and tc = tc])
  case 1
  have "finished ((cleanup (w\<lparr>child := Some (c\<lparr>exited := True\<rparr>),
      childExits := childExits w @ [(code, sg)],
      logs := logs w @ [LogCleanExit (shuttingDown w) code sg]\<rparr>))\<lparr>resolved := True\<rparr>)"
    using assms by (intro cleanup_finished) (simp_all add: awaiting_def childRunning_def)
  then show ?thesis using onExit_clean [OF 1, of opts sg isoT tu tc tp] by simp
next
  case 2
  show ?thesis using assms
    by (simp add: onExit_give_up [OF 2] finished_def awaiting_def childRunning_def)
next
  case 3
  show ?thesis using assms
    by (simp add: onExit_restart [OF 3] delaying_def awaiting_def childRunning_def)
qed

lemma step_awaiting:
  assumes "awaiting w"
  shows "awaiting (step opts pr w ev) \<or> delaying (step opts pr w ev) \<or> finished (step opts pr w ev)"
proof (cases ev)
  case (ChildExit code sg isoT tu tc tp)
  from assms obtain c where c: "child w = Some c" "\<not> exited c"
    by (auto simp: awaiting_def childRunning_def split: option.splits)
  show ?thesis using exit_awaiting [OF assms c(1), of opts code sg isoT tu tc tp] c
    by (simp add: ChildExit)
next
  case (ChildError err)
  then show ?thesis using assms
    by (auto simp: awaiting_def childRunning_def split: option.splits)
next
  case (Signal sig)
  then show ?thesis using assms
    by (auto simp: awaiting_def childRunning_def onSigterm_def onSigint_def forwardSignal_def
        kill_def split: option.splits NodeSignal.splits)
next
  case (TimerFired p now)
  then show ?thesis using assms by (simp add: awaiting_def)
qed

lemma runChild_awaiting:
  "timer w = None \<Longrightarrow> \<not> resolved w \<Longrightarrow> listening w \<Longrightarrow> giveUps w = 0 \<Longrightarrow>
   awaiting (runChild opts pr p now w)"
  by (simp add: awaiting_def childRunning_def runChild_def spawnChild_def persist_def Let_def)

lemma step_delaying:
  assumes "delaying w"
  shows "awaiting (step opts pr w ev) \<or> delaying (step opts pr w ev) \<or> finished (step opts pr w ev)"
proof (cases ev)
  case (ChildExit code sg isoT tu tc tp)
  then show ?thesis using assms
    by (auto simp: delaying_def childRunning_def split: option.splits)
next
  case (ChildError err)
  then show ?thesis using assms
    by (auto simp: delaying_def childRunning_def split: option.splits)
next
  case (Signal sig)
  then show ?thesis using assms
    by (auto simp: delaying_def childRunning_def onSigterm_def onSigint_def forwardSignal_def
        kill_def split: option.splits NodeSignal.splits)
next
  case (TimerFired p now)
  from assms obtain d where d: "timer w = Some d" by (auto simp: delaying_def)
  show ?thesis
  proof (cases "shuttingDown w")
    case True
    have "finished ((cleanup (w\<lparr>timer := None\<rparr>))\<lparr>resolved := True\<rparr>)"
      using assms by (intro cleanup_finished) (simp_all add: delaying_def childRunning_def)
    then show ?thesis using True d by (simp add: TimerFired onTimeout_def)
  next
    case False
    have "awaiting (runChild opts pr p now (w\<lparr>timer := None\<rparr>))"
      using assms by (intro runChild_awaiting) (simp_all add: delaying_def)
    then show ?thesis using False d by (simp add: TimerFired onTimeout_def)
  qed
qed

lemma step_finished_id:
  assumes "finished w"
  shows "step opts pr w ev = w
    \<or> (\<exists>err. step opts pr w ev = w\<lparr>logs := logs w @ [LogChildError err]\<rparr>)"
proof (cases ev)
  case (ChildExit code sg isoT tu tc tp)
  then show ?thesis using assms
    by (cases "child w") (simp_all add: finished_def childRunning_def)
next
  case (ChildError err)
  then show ?thesis by (cases "child w") auto
next
  case (Signal sig)
  then show ?thesis using assms by (simp add: finished_def)
next
  case (TimerFired p now)
  then show ?thesis using assms by (simp add: finished_def)
qed

lemma step_finished:
  "finished w \<Longrightarrow> finished (step opts pr w ev)"
  using step_finished_id [of w opts pr ev] by (auto simp: finished_def childRunning_def)

lemma step_finished_frame:
  "finished w \<Longrightarrow> state (step opts pr w ev) = state w \<and> spawns (step opts pr w ev) = spawns w
     \<and> written (step opts pr w ev) = written w \<and> timeouts (step opts pr w ev) = timeouts w
     \<and> giveUps (step opts pr w ev) = giveUps w"
  using step_finished_id [of w opts pr ev] by auto

lemma run_finished:
  "finished w \<Longrightarrow> finished (run opts pr w evs) \<and> state (run opts pr w evs) = state w
     \<and> spawns (run opts pr w evs) = spawns w \<and> written (run opts pr w evs) = written w
     \<and> timeouts (run opts pr w evs) = timeouts w \<and> giveUps (run opts pr w evs) = giveUps w"
proof (induction evs arbitrary: w)
  case Nil
  then show ?case by simp
next
  case (Cons ev evs)
  from Cons.IH [OF step_finished [OF Cons.prems, of opts pr ev]]
    step_finished_frame [OF Cons.prems, of opts pr ev]
  show ?case by simp
qed

lemma reachable_phase:
  "reachable opts pr w \<Longrightarrow> awaiting w \<or> delaying w \<or> finished w"
proof (induction rule: reachable.induct)
  case (reachable_start supervised isoNow spawnedPid now w)
  then show ?case using start_awaiting by blast
next
  case (reachable_step w ev)
  then show ?case using step_awaiting step_delaying step_finished by blast
qed

lemma gave_up_finished: "reachable opts pr w \<Longrightarrow> status (state w) = GaveUp \<Longrightarrow> finished w"
  using reachable_phase [of opts pr w] by (auto simp: awaiting_def delaying_def)

lemma resolved_finished: "reachable opts pr w \<Longrightarrow> resolved w \<Longrightarrow> finished w"
  using reachable_phase [of opts pr w] by (auto simp: awaiting_def delaying_def)

lemma cleanup_status:
  "status (state (cleanup w)) = (if status (state w) = GaveUp then GaveUp else Stopped)"
  by (simp add: cleanup_def persist_def Let_def)

text \<open>
  C4. In every state that a run reaches: \<open>cleanup\<close> leaves the status \<open>GaveUp\<close> as
  it is and sets every other status to \<open>Stopped\<close>; once the status is \<open>GaveUp\<close> it
  stays \<open>GaveUp\<close> whatever happens next; and once the promise is resolved the status
  no longer changes and is either \<open>Stopped\<close>, with the give-up hook never called, or
  \<open>GaveUp\<close>, with the hook called once.
\<close>

theorem gave_up_is_terminal:
  assumes "reachable opts pr w"
  shows "status (state (cleanup w)) = (if status (state w) = GaveUp then GaveUp else Stopped)
    \<and> (status (state w) = GaveUp \<longrightarrow> status (state (run opts pr w evs)) = GaveUp)
    \<and> (resolved w \<longrightarrow> status (state (run opts pr w evs)) = status (state w)
          \<and> (status (state w) = Stopped \<and> giveUps w = 0
              \<or> status (state w) = GaveUp \<and> giveUps w = 1))"
proof -
  have a: "status (state w) = GaveUp \<longrightarrow> status (state (run opts pr w evs)) = GaveUp"
    using gave_up_finished [OF assms] run_finished [of w opts pr evs] by auto
  have b: "resolved w \<longrightarrow> status (state (run opts pr w evs)) = status (state w)
          \<and> (status (state w) = Stopped \<and> giveUps w = 0
              \<or> status (state w) = GaveUp \<and> giveUps w = 1)"
    using resolved_finished [OF assms] run_finished [of w opts pr evs]
    by (auto simp: finished_def)
  show ?thesis using cleanup_status a b by blast
qed

lemmas example_defs = example_opts_def example_process_def example_start_def
  example_crash1_def example_crash2_def example_crash3_def example_gave_up_def
  exitOf_def timerOf_def startGatewayWatchdog_def maxRestarts_def stableUptime_def
  INITIAL_BACKOFF_MS_def MAX_BACKOFF_MS_def RESTART_WINDOW_MS_def
  STABLE_UPTIME_RESET_MS_def MAX_RESTARTS_PER_HOUR_def

lemma example_start_eq:
  "startGatewayWatchdog (\<lambda>e. False) example_opts example_process
     ''2026-02-25T00:00:00.000Z'' (Some 9999) 0 = Some example_start"
  by (simp add: example_start_def startGatewayWatchdog_def Let_def)

lemma reachable_run: "reachable opts pr w \<Longrightarrow> reachable opts pr (run opts pr w evs)"
  by (induction evs arbitrary: w) (simp_all add: reachable_step)

lemma reachable_example_gave_up: "reachable example_opts example_process example_gave_up"
  unfolding example_gave_up_def
  by (rule reachable_run [OF reachable_start [OF example_start_eq]])

lemma example_gave_up_eval:
  "status (state example_gave_up) = GaveUp \<and> resolved example_gave_up
   \<and> giveUps example_gave_up = 1 \<and> length (spawns example_gave_up) = 3"
  by (simp add: example_defs handler_defs Let_def)

theorem gave_up_is_terminal_witness:
  "reachable example_opts example_process example_gave_up
   \<and> status (state example_gave_up) = GaveUp
   \<and> resolved example_gave_up
   \<and> status (state (cleanup example_gave_up)) = GaveUp
   \<and> status (state (run example_opts example_process example_gave_up
                      [Signal SIGINT, TimerFired (Some 7) 5000])) = GaveUp
   \<and> giveUps example_gave_up = 1"
  using gave_up_is_terminal [OF reachable_example_gave_up,
      of "[Signal SIGINT, TimerFired (Some 7) 5000]"]
    reachable_example_gave_up example_gave_up_eval
  by simp

subsection \<open>Clean exits\<close>

lemma step_exit_clean:
  assumes "child w = Some c" "\<not> exited c" "shuttingDown w \<or> code = Some 0"
  shows "step opts pr w (ChildExit code sg isoT tu tc tp) =
     (cleanup (w\<lparr>child := Some (c\<lparr>exited := True\<rparr>),
                 childExits := childExits w @ [(code, sg)],
                 logs := logs w @ [LogCleanExit (shuttingDown w) code sg]\<rparr>))\<lparr>resolved := True\<rparr>"
proof -
  have "shuttingDown (w\<lparr>child := Some (c\<lparr>exited := True\<rparr>)\<rparr>) \<or> code = Some 0"
    using assms(3) by simp
  from onExit_clean [OF this, of opts sg isoT tu tc tp] assms(1,2) show ?thesis by simp
qed

lemma awaiting_exit_finished:
  assumes "awaiting w" "shuttingDown w \<or> code = Some 0"
  shows "finished (step opts pr w (ChildExit code sg isoT tu tc tp))"
proof -
  from assms(1) obtain c where c: "child w = Some c" "\<not> exited c"
    by (auto simp: awaiting_def childRunning_def split: option.splits)
  have "finished ((cleanup (w\<lparr>child := Some (c\<lparr>exited := True\<rparr>),
      childExits := childExits w @ [(code, sg)],
      logs := logs w @ [LogCleanExit (shuttingDown w) code sg]\<rparr>))\<lparr>resolved := True\<rparr>)"
    using assms(1) by (intro cleanup_finished) (simp_all add: awaiting_def childRunning_def)
  then show ?thesis using step_exit_clean [OF c assms(2)] by simp
qed

lemma reachable_childRunning_awaiting: "reachable opts pr w \<Longrightarrow> childRunning w \<Longrightarrow> awaiting w"
  using reachable_phase [of opts pr w] by (auto simp: delaying_def finished_def)

text \<open>
  C3. When a child's exit event arrives and the shutdown flag is set or the exit code is
  0, whatever the code, the signal and the number of earlier restarts: cleanup runs (the
  listeners go, childPid is cleared, the final state is written once), the status becomes
  \<open>Stopped\<close> unless it was \<open>GaveUp\<close>, the promise is resolved, no timer is set and
  no child is spawned, and the exit hook is called. In a state that a run reaches the
  status is not \<open>GaveUp\<close> while a child is running, so there the status becomes
  \<open>Stopped\<close>, and no later event changes it or spawns a child.
\<close>

theorem clean_exit_finalizes_stopped:
  assumes run: "childRunning w" and clean: "shuttingDown w \<or> code = Some 0"
  shows "(let w' = step opts pr w (ChildExit code sg isoT tu tc tp) in
      status (state w') = (if status (state w) = GaveUp then GaveUp else Stopped)
    \<and> childPid (state w') = None
    \<and> written w' = written w @ [state w']
    \<and> \<not> listening w'
    \<and> resolved w'
    \<and> timer w' = timer w \<and> timeouts w' = timeouts w
    \<and> spawns w' = spawns w
    \<and> restarts (state w') = restarts (state w)
    \<and> lastCrashAt (state w') = lastCrashAt (state w)
    \<and> restartTimestamps w' = restartTimestamps w
    \<and> giveUps w' = giveUps w
    \<and> childExits w' = childExits w @ [(code, sg)]
    \<and> (reachable opts pr w \<longrightarrow>
          status (state w') = Stopped \<and> timer w' = None
        \<and> status (state (run opts pr w' evs)) = Stopped
        \<and> spawns (run opts pr w' evs) = spawns w
        \<and> timeouts (run opts pr w' evs) = timeouts w))"
proof -
  from run obtain c where c: "child w = Some c" "\<not> exited c"
    by (auto simp: childRunning_def split: option.splits)
  note eq = step_exit_clean [OF c clean, of opts pr sg isoT tu tc tp]
  have frame: "status (state (step opts pr w (ChildExit code sg isoT tu tc tp)))
        = (if status (state w) = GaveUp then GaveUp else Stopped)
    \<and> childPid (state (step opts pr w (ChildExit code sg isoT tu tc tp))) = None
    \<and> written (step opts pr w (ChildExit code sg isoT tu tc tp))
        = written w @ [state (step opts pr w (ChildExit code sg isoT tu tc tp))]
    \<and> \<not> listening (step opts pr w (ChildExit code sg isoT tu tc tp))
    \<and> resolved (step opts pr w (ChildExit code sg isoT tu tc tp))
    \<and> timer (step opts pr w (ChildExit code sg isoT tu tc tp)) = timer w
    \<and> timeouts (step opts pr w (ChildExit code sg isoT tu tc tp)) = timeouts w
    \<and> spawns (step opts pr w (ChildExit code sg isoT tu tc tp)) = spawns w
    \<and> restarts (state (step opts pr w (ChildExit code sg isoT tu tc tp))) = restarts (state w)
    \<and> lastCrashAt (state (step opts pr w (ChildExit code sg isoT tu tc tp)))
        = lastCrashAt (state w)
    \<and> restartTimestamps (step opts pr w (ChildExit code sg isoT tu tc tp))
        = restartTimestamps w
    \<and> giveUps (step opts pr w (ChildExit code sg isoT tu tc tp)) = giveUps w
    \<and> childExits (step opts pr w (ChildExit code sg isoT tu tc tp))
        = childExits w @ [(code, sg)]"
    unfolding eq by (simp add: cleanup_def persist_def Let_def)
  have reach: "status (state (step opts pr w (ChildExit code sg isoT tu tc tp))) = Stopped
        \<and> timer (step opts pr w (ChildExit code sg isoT tu tc tp)) = None
        \<and> status (state (run opts pr (step opts pr w (ChildExit code sg isoT tu tc tp)) evs))
            = Stopped
        \<and> spawns (run opts pr (step opts pr w (ChildExit code sg isoT tu tc tp)) evs)
            = spawns w
        \<and> timeouts (run opts pr (step opts pr w (ChildExit code sg isoT tu tc tp)) evs)
            = timeouts w"
    if r: "reachable opts pr w"
  proof -
    have aw: "awaiting w" using reachable_childRunning_awaiting [OF r run] .
    have fin: "finished (step opts pr w (ChildExit code sg isoT tu tc tp))"
      using awaiting_exit_finished [OF aw clean] .
    have "status (state w) = Running" using aw by (simp add: awaiting_def)
    then have st: "status (state (step opts pr w (ChildExit code sg isoT tu tc tp))) = Stopped"
      using frame by simp
    show ?thesis using run_finished [OF fin, of opts pr evs] st frame fin
      by (simp add: finished_def)
  qed
  show ?thesis unfolding Let_def using frame reach by blast
qed

lemma example_restarted_eval:
  "childRunning example_restarted \<and> restarts (state example_restarted) = 1
   \<and> \<not> shuttingDown example_restarted"
  by (simp add: example_restarted_def example_defs handler_defs childRunning_def Let_def)

lemma reachable_example_restarted: "reachable example_opts example_process example_restarted"
  unfolding example_restarted_def
  by (rule reachable_run [OF reachable_start [OF example_start_eq]])

theorem clean_exit_finalizes_stopped_witness:
  "childRunning example_restarted
   \<and> reachable example_opts example_process example_restarted
   \<and> restarts (state example_restarted) = 1
   \<and> status (state (step example_opts example_process example_restarted
        (ChildExit (Some 0) None ''2026-02-25T00:00:09.000Z'' 9000 9000 9000))) = Stopped
   \<and> resolved (step example_opts example_process example_restarted
        (ChildExit (Some 0) None ''2026-02-25T00:00:09.000Z'' 9000 9000 9000))
   \<and> spawns (run example_opts example_process
        (step example_opts example_process example_restarted
          (ChildExit (Some 0) None ''2026-02-25T00:00:09.000Z'' 9000 9000 9000))
        [TimerFired (Some 1) 9500]) = spawns example_restarted"
proof -
  have a: "childRunning example_restarted" using example_restarted_eval by simp
  have b: "shuttingDown example_restarted \<or> Some (0::int) = Some 0" by simp
  note th = clean_exit_finalizes_stopped [OF a b, of example_opts example_process None
        "''2026-02-25T00:00:09.000Z''" 9000 9000 9000 "[TimerFired (Some 1) 9500]",
        unfolded Let_def]
  show ?thesis
    using th reachable_example_restarted example_restarted_eval by blast
qed

subsection \<open>Spawn errors\<close>

lemma step_no_exit:
  assumes "childRunning w" "timer w = None" "\<not> resolved w" "\<not> isExit ev"
  shows "childRunning (step opts pr w ev) \<and> timer (step opts pr w ev) = None
    \<and> \<not> resolved (step opts pr w ev) \<and> state (step opts pr w ev) = state w
    \<and> spawns (step opts pr w ev) = spawns w \<and> timeouts (step opts pr w ev) = timeouts w
    \<and> written (step opts pr w ev) = written w
    \<and> restartTimestamps (step opts pr w ev) = restartTimestamps w
    \<and> backoffMs (step opts pr w ev) = backoffMs w
    \<and> giveUps (step opts pr w ev) = giveUps w"
proof (cases ev)
  case (ChildExit code sg isoT tu tc tp)
  then show ?thesis using assms by simp
next
  case (ChildError err)
  then show ?thesis using assms by (auto simp: childRunning_def split: option.splits)
next
  case (Signal sig)
  then show ?thesis using assms
    by (auto simp: childRunning_def onSigterm_def onSigint_def forwardSignal_def kill_def
        split: option.splits NodeSignal.splits)
next
  case (TimerFired p now)
  then show ?thesis using assms by simp
qed

lemma run_no_exit:
  assumes "childRunning w" "timer w = None" "\<not> resolved w" "\<forall>ev\<in>set evs. \<not> isExit ev"
  shows "childRunning (run opts pr w evs) \<and> timer (run opts pr w evs) = None
    \<and> \<not> resolved (run opts pr w evs) \<and> state (run opts pr w evs) = state w
    \<and> spawns (run opts pr w evs) = spawns w \<and> timeouts (run opts pr w evs) = timeouts w
    \<and> written (run opts pr w evs) = written w
    \<and> restartTimestamps (run opts pr w evs) = restartTimestamps w
    \<and> backoffMs (run opts pr w evs) = backoffMs w
    \<and> giveUps (run opts pr w evs) = giveUps w"
  using assms
proof (induction evs arbitrary: w)
  case Nil
  then show ?case by simp
next
  case (Cons ev evs)
  have ne: "\<not> isExit ev" and rest: "\<forall>e\<in>set evs. \<not> isExit e" using Cons.prems(4) by simp_all
  note s = step_no_exit [OF Cons.prems(1-3) ne, of opts pr]
  from s have a: "childRunning (step opts pr w ev)" and b: "timer (step opts pr w ev) = None"
    and c: "\<not> resolved (step opts pr w ev)" by simp_all
  from Cons.IH [OF a b c rest] s show ?case by simp
qed

text \<open>
  C9. While a child is being watched, its \<^verbatim>\<open>error\<close> event changes nothing but the
  log: the WatchdogState, the restart timestamps, the backoff, the timer, the written
  states, the spawn calls and the promise are as before. And as long as no
  \<^verbatim>\<open>exit\<close> event arrives, whatever else does (errors, signals), the promise stays
  unresolved, no restart is scheduled and no child is spawned: the run waits.
\<close>

theorem child_error_only_logs:
  assumes "childRunning w" and "timer w = None" and "\<not> resolved w"
    and "\<forall>ev\<in>set evs. \<not> isExit ev"
  shows "step opts pr w (ChildError err) = w\<lparr>logs := logs w @ [LogChildError err]\<rparr>
    \<and> \<not> resolved (run opts pr w evs)
    \<and> childRunning (run opts pr w evs)
    \<and> timer (run opts pr w evs) = None
    \<and> state (run opts pr w evs) = state w
    \<and> timeouts (run opts pr w evs) = timeouts w
    \<and> spawns (run opts pr w evs) = spawns w
    \<and> written (run opts pr w evs) = written w
    \<and> restartTimestamps (run opts pr w evs) = restartTimestamps w
    \<and> backoffMs (run opts pr w evs) = backoffMs w"
proof -
  have "step opts pr w (ChildError err) = w\<lparr>logs := logs w @ [LogChildError err]\<rparr>"
    using assms(1) by (auto simp: childRunning_def split: option.splits)
  then show ?thesis using run_no_exit [OF assms, of opts pr] by simp
qed

lemma example_start_eval:
  "childRunning example_start \<and> timer example_start = None \<and> \<not> resolved example_start"
  by (simp add: example_defs handler_defs childRunning_def Let_def)

theorem child_error_only_logs_witness:
  "childRunning example_start \<and> timer example_start = None \<and> \<not> resolved example_start
   \<and> \<not> isExit (ChildError ''spawn ENOENT'') \<and> \<not> isExit (Signal SIGTERM)
   \<and> step example_opts example_process example_start (ChildError ''spawn ENOENT'')
       = example_start\<lparr>logs := logs example_start @ [LogChildError ''spawn ENOENT'']\<rparr>
   \<and> \<not> resolved (run example_opts example_process example_start
         [ChildError ''spawn ENOENT'', Signal SIGTERM])
   \<and> state (run example_opts example_process example_start
         [ChildError ''spawn ENOENT'', Signal SIGTERM]) = state example_start"
proof -
  have a: "childRunning example_start" and b: "timer example_start = None"
    and c: "\<not> resolved example_start" using example_start_eval by simp_all
  have d: "\<forall>ev\<in>set [ChildError ''spawn ENOENT'', Signal SIGTERM]. \<not> isExit ev" by simp
  have e: "\<not> isExit (ChildError ''spawn ENOENT'')" "\<not> isExit (Signal SIGTERM)" by simp_all
  note th = child_error_only_logs [OF a b c d, of example_opts example_process "''spawn ENOENT''"]
  show ?thesis using th a b c e by blast
qed

subsection \<open>The child pid while a restart is pending\<close>

text \<open>
  C8 fails on the code. The first child of the example run has pid 9999; after it
  crashes no child is running, yet the state written with status \<open>Restarting\<close> still
  carries \<open>childPid = 9999\<close>: the restart branch of the exit handler does not clear the
  field, as the give-up branch and \<open>cleanup\<close> do.
\<close>

theorem restarting_state_keeps_childPid:
  "\<not> childRunning (step example_opts example_process example_start (exitOf example_crash1))
   \<and> timer (step example_opts example_process example_start (exitOf example_crash1)) = Some 1000
   \<and> status (last (written
        (step example_opts example_process example_start (exitOf example_crash1)))) = Restarting
   \<and> childPid (last (written
        (step example_opts example_process example_start (exitOf example_crash1)))) = Some 9999"
  by (simp add: example_defs handler_defs childRunning_def Let_def)

subsection \<open>Termination signals\<close>

lemma step_signal:
  "listening w \<Longrightarrow>
   step opts pr w (Signal sig) =
     w\<lparr>logs := logs w @ [case sig of SIGTERM \<Rightarrow> LogSigterm | SIGINT \<Rightarrow> LogSigint],
       shuttingDown := True,
       child := (case child w of
                   None \<Rightarrow> None
                 | Some c \<Rightarrow> Some (if killed c then c else kill c sig))\<rparr>"
  by (cases sig; cases "child w")
     (simp_all add: onSigterm_def onSigint_def forwardSignal_def)

lemma cleanup_frame:
  "spawns (cleanup w) = spawns w \<and> shuttingDown (cleanup w) = shuttingDown w
   \<and> timer (cleanup w) = timer w \<and> timeouts (cleanup w) = timeouts w
   \<and> \<not> listening (cleanup w) \<and> childPid (state (cleanup w)) = None
   \<and> written (cleanup w) = written w @ [state (cleanup w)]
   \<and> resolved (cleanup w) = resolved w"
  by (simp add: cleanup_def persist_def Let_def)

lemma step_shuttingDown:
  assumes "shuttingDown w"
  shows "shuttingDown (step opts pr w ev) \<and> spawns (step opts pr w ev) = spawns w"
proof (cases ev)
  case (ChildExit code sg isoT tu tc tp)
  show ?thesis
  proof (cases "child w")
    case None
    then show ?thesis using assms ChildExit by simp
  next
    case (Some c)
    have sd: "shuttingDown (w\<lparr>child := Some (c\<lparr>exited := True\<rparr>)\<rparr>) \<or> code = Some 0"
      using assms by simp
    show ?thesis using assms ChildExit Some
      by (simp add: onExit_clean [OF sd] cleanup_frame)
  qed
next
  case (ChildError err)
  then show ?thesis using assms by (cases "child w") simp_all
next
  case (Signal sig)
  then show ?thesis using assms step_signal [of w opts pr sig]
    by (cases "listening w") simp_all
next
  case (TimerFired p now)
  then show ?thesis using assms
    by (cases "timer w") (simp_all add: onTimeout_def cleanup_frame)
qed

lemma run_shuttingDown:
  "shuttingDown w \<Longrightarrow> spawns (run opts pr w evs) = spawns w"
proof (induction evs arbitrary: w)
  case Nil
  then show ?case by simp
next
  case (Cons ev evs)
  from step_shuttingDown [OF Cons.prems, of opts pr ev] Cons.IH [of "step opts pr w ev"]
  show ?case by simp
qed

lemma timer_after_shutdown:
  assumes "shuttingDown w" "timer w = Some d"
  shows "step opts pr w (TimerFired p now) = (cleanup (w\<lparr>timer := None\<rparr>))\<lparr>resolved := True\<rparr>"
  using assms by (simp add: onTimeout_def)

text \<open>
  C5 as the code has it. While the listeners are registered, a termination signal sets
  the shutdown flag, logs, and calls \<open>kill\<close> with the same signal on the child handle
  exactly when there is a handle whose \<open>killed\<close> flag is not yet set; nothing else
  changes, so nothing is raised against the supervisor itself. From then on no event
  sequence spawns a child. If the restart timer was pending, its firing runs cleanup
  instead of spawning: the listeners go, childPid is cleared, the status becomes
  \<open>Stopped\<close> (unless it was \<open>GaveUp\<close>), the state is written and the promise is
  resolved.
\<close>

theorem signal_shuts_down_and_forwards_unless_killed:
  assumes "listening w"
  shows "(let w' = step opts pr w (Signal sig) in
      w' = w\<lparr>logs := logs w @ [case sig of SIGTERM \<Rightarrow> LogSigterm | SIGINT \<Rightarrow> LogSigint],
             shuttingDown := True,
             child := (case child w of
                         None \<Rightarrow> None
                       | Some c \<Rightarrow> Some (if killed c then c else kill c sig))\<rparr>
    \<and> shuttingDown w'
    \<and> spawns (run opts pr w' evs) = spawns w
    \<and> (timer w \<noteq> None \<longrightarrow>
         (let w'' = step opts pr w' (TimerFired p now) in
            resolved w'' \<and> \<not> listening w'' \<and> timer w'' = None
          \<and> spawns w'' = spawns w
          \<and> childPid (state w'') = None
          \<and> status (state w'') = (if status (state w) = GaveUp then GaveUp else Stopped)
          \<and> written w'' = written w @ [state w''])))"
proof -
  note eq = step_signal [OF assms, of opts pr sig]
  have sd: "shuttingDown (step opts pr w (Signal sig))" unfolding eq by simp
  have sp: "spawns (step opts pr w (Signal sig)) = spawns w" unfolding eq by simp
  have a: "spawns (run opts pr (step opts pr w (Signal sig)) evs) = spawns w"
    using run_shuttingDown [OF sd, of opts pr evs] sp by simp
  have b: "resolved (step opts pr (step opts pr w (Signal sig)) (TimerFired p now))
      \<and> \<not> listening (step opts pr (step opts pr w (Signal sig)) (TimerFired p now))
      \<and> timer (step opts pr (step opts pr w (Signal sig)) (TimerFired p now)) = None
      \<and> spawns (step opts pr (step opts pr w (Signal sig)) (TimerFired p now)) = spawns w
      \<and> childPid (state (step opts pr (step opts pr w (Signal sig)) (TimerFired p now))) = None
      \<and> status (state (step opts pr (step opts pr w (Signal sig)) (TimerFired p now)))
          = (if status (state w) = GaveUp then GaveUp else Stopped)
      \<and> written (step opts pr (step opts pr w (Signal sig)) (TimerFired p now))
          = written w @ [state (step opts pr (step opts pr w (Signal sig)) (TimerFired p now))]"
    if t: "timer w \<noteq> None"
  proof -
    from t obtain d where "timer w = Some d" by auto
    then have d: "timer (step opts pr w (Signal sig)) = Some d" unfolding eq by simp
    have e2: "step opts pr (step opts pr w (Signal sig)) (TimerFired p now)
        = (cleanup ((step opts pr w (Signal sig))\<lparr>timer := None\<rparr>))\<lparr>resolved := True\<rparr>"
      by (rule timer_after_shutdown [OF sd d])
    show ?thesis
      unfolding e2 unfolding eq
      by (simp add: cleanup_def persist_def Let_def)
  qed
  show ?thesis unfolding Let_def using eq sd a b by blast
qed

lemma example_delaying_eval:
  "listening example_delaying \<and> timer example_delaying = Some 1000
   \<and> status (state example_delaying) = Restarting
   \<and> length (spawns example_delaying) = 1"
  by (simp add: example_delaying_def example_defs handler_defs Let_def)

theorem signal_shuts_down_and_forwards_unless_killed_witness:
  "listening example_delaying \<and> timer example_delaying = Some 1000
   \<and> shuttingDown (step example_opts example_process example_delaying (Signal SIGTERM))
   \<and> resolved (step example_opts example_process
        (step example_opts example_process example_delaying (Signal SIGTERM))
        (TimerFired (Some 10000) 1010))
   \<and> status (state (step example_opts example_process
        (step example_opts example_process example_delaying (Signal SIGTERM))
        (TimerFired (Some 10000) 1010))) = Stopped
   \<and> length (spawns (step example_opts example_process
        (step example_opts example_process example_delaying (Signal SIGTERM))
        (TimerFired (Some 10000) 1010))) = 1"
proof -
  have a: "listening example_delaying" and b: "timer example_delaying \<noteq> None"
    and c: "status (state example_delaying) \<noteq> GaveUp"
    using example_delaying_eval by simp_all
  note th = signal_shuts_down_and_forwards_unless_killed [OF a, of example_opts
      example_process SIGTERM "[]" "Some 10000" 1010, unfolded Let_def]
  from th have sd: "shuttingDown (step example_opts example_process example_delaying
      (Signal SIGTERM))" by blast
  from th b have fin: "resolved (step example_opts example_process
        (step example_opts example_process example_delaying (Signal SIGTERM))
        (TimerFired (Some 10000) 1010))
    \<and> spawns (step example_opts example_process
        (step example_opts example_process example_delaying (Signal SIGTERM))
        (TimerFired (Some 10000) 1010)) = spawns example_delaying
    \<and> status (state (step example_opts example_process
        (step example_opts example_process example_delaying (Signal SIGTERM))
        (TimerFired (Some 10000) 1010)))
       = (if status (state example_delaying) = GaveUp then GaveUp else Stopped)"
    by blast
  from sd fin c example_delaying_eval show ?thesis by (simp del: step.simps)
qed

text \<open>
  C5 fails as stated: in the example run the first child is alive when SIGTERM and then
  SIGINT arrive. SIGTERM is forwarded and sets the handle's \<open>killed\<close> flag; SIGINT
  finds the flag set and is not forwarded, although the child has not exited.
\<close>

theorem second_signal_not_forwarded_to_live_child:
  "childRunning (run example_opts example_process example_start
      [Signal SIGTERM, Signal SIGINT])
   \<and> map_option killCalls (child (run example_opts example_process example_start
      [Signal SIGTERM, Signal SIGINT])) = Some [SIGTERM]"
  by (simp add: example_defs handler_defs childRunning_def Let_def)

subsection \<open>One crash and its restart\<close>

lemma pruneTimestamps_dropWhile:
  "pruneTimestamps t ts = dropWhile (\<lambda>x. t - x > RESTART_WINDOW_MS) ts"
  by (induction ts) simp_all

lemma pruneTimestamps_length: "length (pruneTimestamps t ts) \<le> length ts"
  by (simp add: pruneTimestamps_dropWhile length_dropWhile_le)

lemma pruneTimestamps_sorted:
  "sorted ts \<Longrightarrow> pruneTimestamps t ts = filter (\<lambda>x. t - x \<le> RESTART_WINDOW_MS) ts"
proof (induction ts)
  case Nil
  then show ?case by simp
next
  case (Cons a ts)
  show ?case
  proof (cases "t - a > RESTART_WINDOW_MS")
    case True
    then show ?thesis using Cons by simp
  next
    case False
    have "\<forall>x\<in>set ts. t - x \<le> RESTART_WINDOW_MS" using Cons.prems False by auto
    then have "filter (\<lambda>x. t - x \<le> RESTART_WINDOW_MS) ts = ts" by (simp add: filter_id_conv)
    then show ?thesis using False by simp
  qed
qed

lemma pruneTimestamps_head:
  "t - h \<le> RESTART_WINDOW_MS \<Longrightarrow> pruneTimestamps t (h # rest) = h # rest"
  by simp

lemma crash_restart:
  assumes "awaiting w" "\<not> shuttingDown w" "crashCode c \<noteq> Some 0"
    and "int (length (pruneTimestamps (crashCheckAt c) (restartTimestamps w))) < maxRestarts opts"
  shows "delaying (step opts pr w (exitOf c))
    \<and> \<not> shuttingDown (step opts pr w (exitOf c))
    \<and> timer (step opts pr w (exitOf c)) = Some (usedDelay opts w c)
    \<and> timeouts (step opts pr w (exitOf c)) = timeouts w @ [usedDelay opts w c]
    \<and> backoffMs (step opts pr w (exitOf c)) = min (usedDelay opts w c * 2) MAX_BACKOFF_MS
    \<and> restartTimestamps (step opts pr w (exitOf c))
        = pruneTimestamps (crashCheckAt c) (restartTimestamps w) @ [crashPushAt c]
    \<and> spawns (step opts pr w (exitOf c)) = spawns w
    \<and> restarts (state (step opts pr w (exitOf c))) = restarts (state w) + 1
    \<and> giveUps (step opts pr w (exitOf c)) = giveUps w"
proof -
  from assms(1) obtain ch where ch: "child w = Some ch" "\<not> exited ch"
    by (auto simp: awaiting_def childRunning_def split: option.splits)
  let ?w = "w\<lparr>child := Some (ch\<lparr>exited := True\<rparr>)\<rparr>"
  have a: "\<not> shuttingDown ?w" using assms(2) by simp
  have b: "int (length (pruneTimestamps (crashCheckAt c) (restartTimestamps ?w)))
      < maxRestarts opts" using assms(4) by simp
  have st: "step opts pr w (exitOf c)
      = onExit opts (crashCode c) (crashSignal c) (crashIso c) (crashUptimeAt c)
          (crashCheckAt c) (crashPushAt c) ?w"
    using ch by (simp add: exitOf_def)
  show ?thesis
    unfolding st onExit_restart [OF a assms(3) b]
    using assms(1,2) by (simp add: delaying_def awaiting_def childRunning_def usedDelay_def)
qed

lemma timer_respawn:
  assumes "delaying w" "\<not> shuttingDown w"
  shows "awaiting (step opts pr w (timerOf c))
    \<and> \<not> shuttingDown (step opts pr w (timerOf c))
    \<and> timeouts (step opts pr w (timerOf c)) = timeouts w
    \<and> backoffMs (step opts pr w (timerOf c)) = backoffMs w
    \<and> restartTimestamps (step opts pr w (timerOf c)) = restartTimestamps w
    \<and> childStartedAt (step opts pr w (timerOf c)) = respawnAt c
    \<and> length (spawns (step opts pr w (timerOf c))) = Suc (length (spawns w))
    \<and> restarts (state (step opts pr w (timerOf c))) = restarts (state w)
    \<and> giveUps (step opts pr w (timerOf c)) = giveUps w"
proof -
  from assms(1) obtain d where d: "timer w = Some d" by (auto simp: delaying_def)
  have st: "step opts pr w (timerOf c)
      = runChild opts pr (respawnPid c) (respawnAt c) (w\<lparr>timer := None\<rparr>)"
    using d assms(2) by (simp add: timerOf_def onTimeout_def)
  have aw: "awaiting (runChild opts pr (respawnPid c) (respawnAt c) (w\<lparr>timer := None\<rparr>))"
    using assms(1) by (intro runChild_awaiting) (simp_all add: delaying_def)
  show ?thesis unfolding st using aw assms(2)
    by (simp add: runChild_def spawnChild_def persist_def Let_def)
qed

lemma cycle_effect:
  assumes "awaiting w" "\<not> shuttingDown w" "crashCode c \<noteq> Some 0"
    and "int (length (pruneTimestamps (crashCheckAt c) (restartTimestamps w))) < maxRestarts opts"
  shows "awaiting (run opts pr w [exitOf c, timerOf c])
    \<and> \<not> shuttingDown (run opts pr w [exitOf c, timerOf c])
    \<and> timeouts (run opts pr w [exitOf c, timerOf c]) = timeouts w @ [usedDelay opts w c]
    \<and> backoffMs (run opts pr w [exitOf c, timerOf c])
        = min (usedDelay opts w c * 2) MAX_BACKOFF_MS
    \<and> restartTimestamps (run opts pr w [exitOf c, timerOf c])
        = pruneTimestamps (crashCheckAt c) (restartTimestamps w) @ [crashPushAt c]
    \<and> childStartedAt (run opts pr w [exitOf c, timerOf c]) = respawnAt c
    \<and> length (spawns (run opts pr w [exitOf c, timerOf c])) = Suc (length (spawns w))
    \<and> restarts (state (run opts pr w [exitOf c, timerOf c])) = restarts (state w) + 1
    \<and> giveUps (run opts pr w [exitOf c, timerOf c]) = giveUps w"
proof -
  note a = crash_restart [OF assms, of pr]
  from a have d: "delaying (step opts pr w (exitOf c))"
    and s: "\<not> shuttingDown (step opts pr w (exitOf c))" by simp_all
  note b = timer_respawn [OF d s, of opts pr c]
  have r: "run opts pr w [exitOf c, timerOf c]
      = step opts pr (step opts pr w (exitOf c)) (timerOf c)" by simp
  show ?thesis unfolding r using a b by simp
qed

subsection \<open>Backoff\<close>

lemma run_append: "run opts pr w (xs @ ys) = run opts pr (run opts pr w xs) ys"
  by (induction xs arbitrary: w) simp_all

lemma run_cycles_Cons:
  "run opts pr w (cycles (c # cs)) = run opts pr (run opts pr w [exitOf c, timerOf c]) (cycles cs)"
  by simp

lemma run_cycles:
  assumes "awaiting w" "\<not> shuttingDown w" "\<forall>c\<in>set cs. crashCode c \<noteq> Some 0"
    and "int (length (restartTimestamps w)) + int (length cs) \<le> maxRestarts opts"
  shows "awaiting (run opts pr w (cycles cs))
    \<and> \<not> shuttingDown (run opts pr w (cycles cs))
    \<and> timeouts (run opts pr w (cycles cs))
        = timeouts w @ spec_backoff_delays opts (backoffMs w) (childStartedAt w) cs
    \<and> length (spawns (run opts pr w (cycles cs))) = length (spawns w) + length cs
    \<and> restarts (state (run opts pr w (cycles cs))) = restarts (state w) + int (length cs)
    \<and> giveUps (run opts pr w (cycles cs)) = giveUps w
    \<and> length (restartTimestamps (run opts pr w (cycles cs)))
        \<le> length (restartTimestamps w) + length cs"
  using assms
proof (induction cs arbitrary: w)
  case Nil
  then show ?case by simp
next
  case (Cons c cs)
  let ?w = "run opts pr w [exitOf c, timerOf c]"
  have code: "crashCode c \<noteq> Some 0" and codes: "\<forall>c\<in>set cs. crashCode c \<noteq> Some 0"
    using Cons.prems(3) by simp_all
  have lim: "int (length (pruneTimestamps (crashCheckAt c) (restartTimestamps w)))
      < maxRestarts opts"
    using Cons.prems(4) pruneTimestamps_length [of "crashCheckAt c" "restartTimestamps w"]
    by simp
  note ce = cycle_effect [OF Cons.prems(1,2) code lim, of pr]
  from ce have aw: "awaiting ?w" and sd: "\<not> shuttingDown ?w" by simp_all
  have len: "length (restartTimestamps ?w) \<le> Suc (length (restartTimestamps w))"
    using ce pruneTimestamps_length [of "crashCheckAt c" "restartTimestamps w"] by simp
  then have cap: "int (length (restartTimestamps ?w)) + int (length cs) \<le> maxRestarts opts"
    using Cons.prems(4) by simp
  note ih = Cons.IH [OF aw sd codes cap]
  have bo: "backoffMs ?w = min (usedDelay opts w c * 2) 60000"
    and cs: "childStartedAt ?w = respawnAt c"
    and to: "timeouts ?w = timeouts w @ [usedDelay opts w c]"
    using ce by (simp_all add: MAX_BACKOFF_MS_def)
  have ud: "usedDelay opts w c
      = (if crashUptimeAt c - childStartedAt w \<ge> stableUptime opts then 1000 else backoffMs w)"
    by (simp add: usedDelay_def INITIAL_BACKOFF_MS_def)
  have sp: "spec_backoff_delays opts (backoffMs w) (childStartedAt w) (c # cs)
      = usedDelay opts w c # spec_backoff_delays opts (backoffMs ?w) (childStartedAt ?w) cs"
    unfolding bo cs by (simp add: ud Let_def)
  have l1: "length (spawns ?w) = Suc (length (spawns w))"
    and l2: "restarts (state ?w) = restarts (state w) + 1"
    and l3: "giveUps ?w = giveUps w"
    using ce by simp_all
  show ?case
    unfolding run_cycles_Cons sp
    using ih len by (simp only: to l1 l2 l3) simp
qed

lemma spec_backoff_delays_unstable:
  "allUnstable opts t0 cs \<Longrightarrow> d \<le> 60000 \<Longrightarrow>
   spec_backoff_delays opts d t0 cs = map (\<lambda>k. min (d * 2 ^ k) 60000) [0..<length cs]"
proof (induction cs arbitrary: d t0)
  case Nil
  then show ?case by simp
next
  case (Cons c cs)
  have u: "\<not> crashUptimeAt c - t0 \<ge> stableUptime opts" and rest: "allUnstable opts (respawnAt c) cs"
    using Cons.prems(1) by simp_all
  have ih: "spec_backoff_delays opts (min (d * 2) 60000) (respawnAt c) cs
      = map (\<lambda>k. min (min (d * 2) 60000 * 2 ^ k) 60000) [0..<length cs]"
    by (rule Cons.IH [OF rest]) simp
  have eq: "min (min (d * 2) 60000 * 2 ^ k) 60000 = min (d * 2 ^ Suc k) 60000" for k :: nat
  proof -
    have "(1::int) \<le> 2 ^ k" by simp
    then have ge: "(60000::int) \<le> 60000 * 2 ^ k" by simp
    have m: "min (d * 2) 60000 * 2 ^ k = min (d * 2 ^ Suc k) (60000 * 2 ^ k)"
      by (simp add: min_mult_distrib_right mult.assoc)
    show ?thesis unfolding m using ge by (simp only: min_def split: if_splits) linarith
  qed
  have "map (\<lambda>k. min (d * 2 ^ k) 60000) [0..<length (c # cs)]
      = min d 60000 # map (\<lambda>k. min (d * 2 ^ Suc k) 60000) [0..<length cs]"
    by (simp add: upt_rec [of 0] map_Suc_upt [symmetric] del: upt_Suc)
  then show ?case using u ih Cons.prems(2) by (simp add: eq Let_def)
qed

text \<open>
  C2. A run starts with a backoff of 1000 ms. When a crash is restarted, the delay given
  to the timer is the backoff in effect when the crash is handled, after it has been
  reset to 1000 if the child had been up for the stability threshold or longer; only
  then is the backoff set to twice that delay, capped at 60000, for the next crash. So
  over any number of crashes that are all restarted the delays are those of the spec's
  policy, and when every child crashes before the threshold they are 1000, 2000, 4000,
  8000, ..., capped at 60000.
\<close>

theorem backoff_delay_sequence:
  assumes "startGatewayWatchdog supervised opts pr isoNow spawnedPid now = Some w0"
    and "\<forall>c\<in>set cs. crashCode c \<noteq> Some 0"
    and "int (length cs) \<le> maxRestarts opts"
  shows "backoffMs w0 = 1000
    \<and> stableUptime (opts\<lparr>stableUptimeMs := None\<rparr>) = 300000
    \<and> timeouts (run opts pr w0 (cycles cs)) = spec_backoff_delays opts 1000 now cs
    \<and> (allUnstable opts now cs \<longrightarrow>
         timeouts (run opts pr w0 (cycles cs))
           = map (\<lambda>k. min (1000 * 2 ^ k) 60000) [0..<length cs])
    \<and> (awaiting w \<and> \<not> shuttingDown w \<and> crashCode c \<noteq> Some 0
         \<and> \<not> fst (isRateLimited opts (crashCheckAt c) w) \<longrightarrow>
         timer (step opts pr w (exitOf c))
           = Some (if crashUptimeAt c - childStartedAt w \<ge> stableUptime opts
                   then 1000 else backoffMs w)
       \<and> backoffMs (step opts pr w (exitOf c))
           = min ((if crashUptimeAt c - childStartedAt w \<ge> stableUptime opts
                   then 1000 else backoffMs w) * 2) 60000)"
proof -
  have aw: "awaiting w0" using start_awaiting [OF assms(1)] .
  have init: "\<not> shuttingDown w0 \<and> backoffMs w0 = 1000 \<and> childStartedAt w0 = now
      \<and> restartTimestamps w0 = [] \<and> timeouts w0 = []"
    using assms(1)
    by (auto simp: startGatewayWatchdog_def runChild_def spawnChild_def persist_def Let_def
        INITIAL_BACKOFF_MS_def split: if_splits)
  have cap: "int (length (restartTimestamps w0)) + int (length cs) \<le> maxRestarts opts"
    using assms(3) init by simp
  from init have sd: "\<not> shuttingDown w0" by simp
  note rc = run_cycles [OF aw sd assms(2) cap, of pr]
  have a: "timeouts (run opts pr w0 (cycles cs)) = spec_backoff_delays opts 1000 now cs"
    using rc init by simp
  have b: "timeouts (run opts pr w0 (cycles cs))
      = map (\<lambda>k. min (1000 * 2 ^ k) 60000) [0..<length cs]" if "allUnstable opts now cs"
    using a spec_backoff_delays_unstable [OF that, of 1000] by simp
  have c: "timer (step opts pr w (exitOf c))
           = Some (if crashUptimeAt c - childStartedAt w \<ge> stableUptime opts
                   then 1000 else backoffMs w)
       \<and> backoffMs (step opts pr w (exitOf c))
           = min ((if crashUptimeAt c - childStartedAt w \<ge> stableUptime opts
                   then 1000 else backoffMs w) * 2) 60000"
    if h: "awaiting w \<and> \<not> shuttingDown w \<and> crashCode c \<noteq> Some 0
         \<and> \<not> fst (isRateLimited opts (crashCheckAt c) w)"
  proof -
    from h have lim: "int (length (pruneTimestamps (crashCheckAt c) (restartTimestamps w)))
        < maxRestarts opts" by (simp add: isRateLimited_def Let_def)
    from h have h1: "awaiting w" and h2: "\<not> shuttingDown w" and h3: "crashCode c \<noteq> Some 0"
      by simp_all
    show ?thesis using crash_restart [OF h1 h2 h3 lim, of pr]
      by (simp add: usedDelay_def INITIAL_BACKOFF_MS_def MAX_BACKOFF_MS_def)
  qed
  have dflt: "stableUptime (opts\<lparr>stableUptimeMs := None\<rparr>) = 300000"
    by (simp add: stableUptime_def STABLE_UPTIME_RESET_MS_def)
  show ?thesis using init dflt a b c by blast
qed

lemma example_start8_eq:
  "startGatewayWatchdog (\<lambda>e. False) example_opts8 example_process
     ''2026-02-25T00:00:00.000Z'' (Some 9999) 0 = Some example_start8"
  by (simp add: example_start8_def startGatewayWatchdog_def Let_def)

theorem backoff_delay_sequence_witness:
  "startGatewayWatchdog (\<lambda>e. False) example_opts8 example_process
     ''2026-02-25T00:00:00.000Z'' (Some 9999) 0 = Some example_start8
   \<and> list_all (\<lambda>c. crashCode c \<noteq> Some 0) example_rapid
   \<and> int (length example_rapid) \<le> maxRestarts example_opts8
   \<and> allUnstable example_opts8 0 example_rapid
   \<and> timeouts (run example_opts8 example_process example_start8 (cycles example_rapid))
       = [1000, 2000, 4000, 8000, 16000, 32000, 60000, 60000]
   \<and> awaiting example_start8 \<and> \<not> shuttingDown example_start8
   \<and> crashCode example_crash1 \<noteq> Some 0
   \<and> \<not> fst (isRateLimited example_opts8 (crashCheckAt example_crash1) example_start8)
   \<and> timer (step example_opts8 example_process example_start8 (exitOf example_crash1))
       = Some 1000
   \<and> backoffMs (step example_opts8 example_process example_start8 (exitOf example_crash1))
       = 2000"
proof -
  have a: "\<forall>c\<in>set example_rapid. crashCode c \<noteq> Some 0"
    by (simp add: example_rapid_def)
  have b: "int (length example_rapid) \<le> maxRestarts example_opts8"
    by (simp add: example_rapid_def example_opts8_def example_opts_def maxRestarts_def)
  have c: "allUnstable example_opts8 0 example_rapid"
    by (simp add: example_rapid_def example_opts8_def example_opts_def stableUptime_def
        STABLE_UPTIME_RESET_MS_def)
  have d: "map (\<lambda>k. min (1000 * 2 ^ k) 60000) [0..<length example_rapid]
      = [1000, 2000, 4000, 8000, 16000, 32000, 60000, 60000 :: int]"
    by (simp add: example_rapid_def upt_rec)
  have aw: "awaiting example_start8" using start_awaiting [OF example_start8_eq] .
  have e: "\<not> shuttingDown example_start8 \<and> childStartedAt example_start8 = 0
      \<and> backoffMs example_start8 = 1000 \<and> restartTimestamps example_start8 = []"
    by (simp add: example_start8_def example_opts8_def example_opts_def example_process_def
        startGatewayWatchdog_def runChild_def spawnChild_def persist_def Let_def
        INITIAL_BACKOFF_MS_def)
  have f: "crashCode example_crash1 \<noteq> Some 0" by (simp add: example_crash1_def)
  have g: "\<not> fst (isRateLimited example_opts8 (crashCheckAt example_crash1) example_start8)"
    using e by (simp add: isRateLimited_def Let_def example_opts8_def maxRestarts_def)
  have h: "\<not> stableUptime example_opts8
      \<le> crashUptimeAt example_crash1 - childStartedAt example_start8"
    using e by (simp add: example_crash1_def example_opts8_def example_opts_def
        stableUptime_def STABLE_UPTIME_RESET_MS_def)
  note th = backoff_delay_sequence [OF example_start8_eq a b,
      where w = example_start8 and c = example_crash1]
  from th c have i: "timeouts (run example_opts8 example_process example_start8
      (cycles example_rapid)) = map (\<lambda>k. min (1000 * 2 ^ k) 60000) [0..<length example_rapid]"
    by blast
  from th aw e f g have "timer (step example_opts8 example_process example_start8
        (exitOf example_crash1))
      = Some (if crashUptimeAt example_crash1 - childStartedAt example_start8
                \<ge> stableUptime example_opts8 then 1000 else backoffMs example_start8)
    \<and> backoffMs (step example_opts8 example_process example_start8 (exitOf example_crash1))
      = min ((if crashUptimeAt example_crash1 - childStartedAt example_start8
                \<ge> stableUptime example_opts8 then 1000 else backoffMs example_start8) * 2)
          60000"
    by blast
  then have j: "timer (step example_opts8 example_process example_start8
        (exitOf example_crash1)) = Some 1000
    \<and> backoffMs (step example_opts8 example_process example_start8 (exitOf example_crash1))
      = 2000"
    using h e by (simp only: if_False) simp
  have l: "list_all (\<lambda>c. crashCode c \<noteq> Some 0) example_rapid"
    using a by (simp add: list_all_iff)
  show ?thesis using example_start8_eq l b c aw e f g j unfolding i d by blast
qed

subsection \<open>The rate limit\<close>

lemma run_cycles_timestamps:
  assumes "awaiting w" "\<not> shuttingDown w" "\<forall>c\<in>set cs. crashCode c \<noteq> Some 0"
    and "int (length (restartTimestamps w)) + int (length cs) \<le> maxRestarts opts"
    and "restartTimestamps w = h # rest"
    and "\<forall>c\<in>set cs. crashCheckAt c - h \<le> RESTART_WINDOW_MS"
  shows "restartTimestamps (run opts pr w (cycles cs)) = h # rest @ map crashPushAt cs"
  using assms
proof (induction cs arbitrary: w rest)
  case Nil
  then show ?case by simp
next
  case (Cons c cs)
  let ?w = "run opts pr w [exitOf c, timerOf c]"
  have code: "crashCode c \<noteq> Some 0" and codes: "\<forall>c\<in>set cs. crashCode c \<noteq> Some 0"
    using Cons.prems(3) by simp_all
  have win: "crashCheckAt c - h \<le> RESTART_WINDOW_MS"
    and wins: "\<forall>c\<in>set cs. crashCheckAt c - h \<le> RESTART_WINDOW_MS"
    using Cons.prems(6) by simp_all
  have keep: "pruneTimestamps (crashCheckAt c) (restartTimestamps w) = h # rest"
    using Cons.prems(5) win by simp
  have lim: "int (length (pruneTimestamps (crashCheckAt c) (restartTimestamps w)))
      < maxRestarts opts"
    using Cons.prems(4) pruneTimestamps_length [of "crashCheckAt c" "restartTimestamps w"]
    by simp
  note ce = cycle_effect [OF Cons.prems(1,2) code lim, of pr]
  from ce have aw: "awaiting ?w" and sd: "\<not> shuttingDown ?w" by simp_all
  from ce keep have ts: "restartTimestamps ?w = h # (rest @ [crashPushAt c])" by simp
  have cap: "int (length (restartTimestamps ?w)) + int (length cs) \<le> maxRestarts opts"
    using Cons.prems(4,5) ts by simp
  show ?case
    unfolding run_cycles_Cons using Cons.IH [OF aw sd codes cap ts wins] by simp
qed

lemma run_cycles_timestamps_fresh:
  assumes "awaiting w" "\<not> shuttingDown w" "\<forall>c\<in>set cs. crashCode c \<noteq> Some 0"
    and "int (length cs) \<le> maxRestarts opts"
    and "restartTimestamps w = []"
    and "withinWindow (cs @ [final])"
  shows "pruneTimestamps (crashCheckAt final) (restartTimestamps (run opts pr w (cycles cs)))
    = map crashPushAt cs"
proof (cases cs)
  case Nil
  then show ?thesis using assms(5) by simp
next
  case (Cons c cs')
  let ?w = "run opts pr w [exitOf c, timerOf c]"
  have code: "crashCode c \<noteq> Some 0" and codes: "\<forall>c\<in>set cs'. crashCode c \<noteq> Some 0"
    using assms(3) Cons by simp_all
  have wins: "\<forall>d\<in>set cs'. crashCheckAt d - crashPushAt c \<le> RESTART_WINDOW_MS"
    and winf: "crashCheckAt final - crashPushAt c \<le> RESTART_WINDOW_MS"
    using assms(6) Cons by simp_all
  have lim: "int (length (pruneTimestamps (crashCheckAt c) (restartTimestamps w)))
      < maxRestarts opts"
    using assms(4,5) Cons by simp
  note ce = cycle_effect [OF assms(1,2) code lim, of pr]
  from ce have aw: "awaiting ?w" and sd: "\<not> shuttingDown ?w" by simp_all
  from ce assms(5) have ts: "restartTimestamps ?w = crashPushAt c # []" by simp
  have cap: "int (length (restartTimestamps ?w)) + int (length cs') \<le> maxRestarts opts"
    using assms(4) Cons ts by simp
  have "restartTimestamps (run opts pr w (cycles cs)) = crashPushAt c # map crashPushAt cs'"
    unfolding Cons run_cycles_Cons
    using run_cycles_timestamps [OF aw sd codes cap ts wins] by simp
  then show ?thesis using winf Cons by simp
qed

lemma crash_give_up:
  assumes "awaiting w" "\<not> shuttingDown w" "crashCode c \<noteq> Some 0"
    and "maxRestarts opts \<le> int (length (pruneTimestamps (crashCheckAt c) (restartTimestamps w)))"
  shows "finished (step opts pr w (exitOf c))
    \<and> status (state (step opts pr w (exitOf c))) = GaveUp
    \<and> giveUps (step opts pr w (exitOf c)) = 1
    \<and> spawns (step opts pr w (exitOf c)) = spawns w
    \<and> timeouts (step opts pr w (exitOf c)) = timeouts w"
proof -
  from assms(1) obtain ch where ch: "child w = Some ch" "\<not> exited ch"
    by (auto simp: awaiting_def childRunning_def split: option.splits)
  let ?w = "w\<lparr>child := Some (ch\<lparr>exited := True\<rparr>)\<rparr>"
  have a: "\<not> shuttingDown ?w" using assms(2) by simp
  have b: "maxRestarts opts
      \<le> int (length (pruneTimestamps (crashCheckAt c) (restartTimestamps ?w)))"
    using assms(4) by simp
  have st: "step opts pr w (exitOf c)
      = onExit opts (crashCode c) (crashSignal c) (crashIso c) (crashUptimeAt c)
          (crashCheckAt c) (crashPushAt c) ?w"
    using ch by (simp add: exitOf_def)
  show ?thesis
    unfolding st onExit_give_up [OF a assms(3) b]
    using assms(1,2) by (simp add: finished_def awaiting_def childRunning_def)
qed

lemma start_initial:
  assumes "startGatewayWatchdog supervised opts pr isoNow spawnedPid now = Some w0"
  shows "\<not> shuttingDown w0 \<and> backoffMs w0 = 1000 \<and> childStartedAt w0 = now
    \<and> restartTimestamps w0 = [] \<and> timeouts w0 = [] \<and> length (spawns w0) = 1
    \<and> restarts (state w0) = 0 \<and> giveUps w0 = 0"
  using assms
  by (auto simp: startGatewayWatchdog_def runChild_def spawnChild_def persist_def Let_def
      INITIAL_BACKOFF_MS_def split: if_splits)

lemma isRateLimited_spec:
  "fst (isRateLimited opts t w)
     = (maxRestarts opts \<le> int (length (restartTimestamps (snd (isRateLimited opts t w)))))
   \<and> restartTimestamps (snd (isRateLimited opts t w))
     = dropWhile (\<lambda>x. t - x > RESTART_WINDOW_MS) (restartTimestamps w)
   \<and> (sorted (restartTimestamps w) \<longrightarrow>
        restartTimestamps (snd (isRateLimited opts t w))
          = filter (\<lambda>x. t - x \<le> RESTART_WINDOW_MS) (restartTimestamps w))"
  using pruneTimestamps_sorted [of "restartTimestamps w" t]
  by (simp add: isRateLimited_def Let_def pruneTimestamps_dropWhile)

text \<open>
  C1. The rate check drops the leading restart timestamps that are older than the
  window (all the old ones when the timestamps are in time order) and reports a limit
  exactly when the number of those kept is at least the cap N. In a run in which the
  first N crashes are followed by the firing of the restart timer, every one of them
  leads to a restart: after k of them k + 1 children have been spawned and the restart
  count is k. If the crashes all fall within the window of the first restart, crash
  N + 1 sets the status to gave-up, calls the give-up hook once and resolves the
  promise with no timer pending, and no event after it spawns a child.
\<close>

theorem gives_up_on_crash_after_cap:
  assumes "startGatewayWatchdog supervised opts pr isoNow spawnedPid now = Some w0"
    and "\<forall>c\<in>set cs. crashCode c \<noteq> Some 0"
    and "crashCode final \<noteq> Some 0"
    and "int (length cs) = maxRestarts opts"
  shows "maxRestarts (opts\<lparr>maxRestartsPerHour := None\<rparr>) = 5
    \<and> RESTART_WINDOW_MS = 3600000
    \<and> fst (isRateLimited opts t w)
       = (maxRestarts opts \<le> int (length (restartTimestamps (snd (isRateLimited opts t w)))))
    \<and> restartTimestamps (snd (isRateLimited opts t w))
       = dropWhile (\<lambda>x. t - x > RESTART_WINDOW_MS) (restartTimestamps w)
    \<and> (sorted (restartTimestamps w) \<longrightarrow>
         restartTimestamps (snd (isRateLimited opts t w))
           = filter (\<lambda>x. t - x \<le> RESTART_WINDOW_MS) (restartTimestamps w))
    \<and> (k \<le> length cs \<longrightarrow>
         awaiting (run opts pr w0 (cycles (take k cs)))
       \<and> length (spawns (run opts pr w0 (cycles (take k cs)))) = Suc k
       \<and> restarts (state (run opts pr w0 (cycles (take k cs)))) = int k
       \<and> giveUps (run opts pr w0 (cycles (take k cs))) = 0)
    \<and> (withinWindow (cs @ [final]) \<longrightarrow>
         (let wf = step opts pr (run opts pr w0 (cycles cs)) (exitOf final) in
            status (state wf) = GaveUp
          \<and> giveUps wf = 1
          \<and> resolved wf \<and> timer wf = None \<and> \<not> childRunning wf
          \<and> length (spawns wf) = Suc (length cs)
          \<and> length (spawns (run opts pr wf evs)) = Suc (length cs)
          \<and> giveUps (run opts pr wf evs) = 1
          \<and> status (state (run opts pr wf evs)) = GaveUp))"
proof -
  have aw: "awaiting w0" using start_awaiting [OF assms(1)] .
  note init = start_initial [OF assms(1)]
  from init have sd: "\<not> shuttingDown w0" and ts: "restartTimestamps w0 = []" by simp_all
  have b: "awaiting (run opts pr w0 (cycles (take k cs)))
       \<and> length (spawns (run opts pr w0 (cycles (take k cs)))) = Suc k
       \<and> restarts (state (run opts pr w0 (cycles (take k cs)))) = int k
       \<and> giveUps (run opts pr w0 (cycles (take k cs))) = 0" if k: "k \<le> length cs"
  proof -
    have codes: "\<forall>c\<in>set (take k cs). crashCode c \<noteq> Some 0"
      using assms(2) by (meson in_set_takeD)
    have cap: "int (length (restartTimestamps w0)) + int (length (take k cs))
        \<le> maxRestarts opts" using assms(4) k ts by simp
    show ?thesis using run_cycles [OF aw sd codes cap, of pr] init k by simp
  qed
  have c: "status (state (step opts pr (run opts pr w0 (cycles cs)) (exitOf final))) = GaveUp
      \<and> giveUps (step opts pr (run opts pr w0 (cycles cs)) (exitOf final)) = 1
      \<and> resolved (step opts pr (run opts pr w0 (cycles cs)) (exitOf final))
      \<and> timer (step opts pr (run opts pr w0 (cycles cs)) (exitOf final)) = None
      \<and> \<not> childRunning (step opts pr (run opts pr w0 (cycles cs)) (exitOf final))
      \<and> length (spawns (step opts pr (run opts pr w0 (cycles cs)) (exitOf final)))
          = Suc (length cs)
      \<and> length (spawns (run opts pr
            (step opts pr (run opts pr w0 (cycles cs)) (exitOf final)) evs)) = Suc (length cs)
      \<and> giveUps (run opts pr
            (step opts pr (run opts pr w0 (cycles cs)) (exitOf final)) evs) = 1
      \<and> status (state (run opts pr
            (step opts pr (run opts pr w0 (cycles cs)) (exitOf final)) evs)) = GaveUp"
    if win: "withinWindow (cs @ [final])"
  proof -
    let ?w = "run opts pr w0 (cycles cs)"
    have cap: "int (length (restartTimestamps w0)) + int (length cs) \<le> maxRestarts opts"
      using assms(4) ts by simp
    note rc = run_cycles [OF aw sd assms(2) cap, of pr]
    from rc have aw': "awaiting ?w" and sd': "\<not> shuttingDown ?w"
      and sp: "length (spawns ?w) = Suc (length cs)" using init by simp_all
    have cap': "int (length cs) \<le> maxRestarts opts" using assms(4) by simp
    have "pruneTimestamps (crashCheckAt final) (restartTimestamps ?w) = map crashPushAt cs"
      using run_cycles_timestamps_fresh [OF aw sd assms(2) cap' ts win] .
    then have lim: "maxRestarts opts
        \<le> int (length (pruneTimestamps (crashCheckAt final) (restartTimestamps ?w)))"
      using assms(4) by simp
    note gu = crash_give_up [OF aw' sd' assms(3) lim, of pr]
    from gu have fin: "finished (step opts pr ?w (exitOf final))" by simp
    show ?thesis using gu sp run_finished [OF fin, of opts pr evs] fin
      by (simp add: finished_def)
  qed
  have dflt: "maxRestarts (opts\<lparr>maxRestartsPerHour := None\<rparr>) = 5"
    by (simp add: maxRestarts_def MAX_RESTARTS_PER_HOUR_def)
  have win: "RESTART_WINDOW_MS = 3600000" by (simp add: RESTART_WINDOW_MS_def)
  show ?thesis unfolding Let_def using dflt win isRateLimited_spec [of opts t w] b c by blast
qed

theorem gives_up_on_crash_after_cap_witness:
  "startGatewayWatchdog (\<lambda>e. False) example_opts example_process
     ''2026-02-25T00:00:00.000Z'' (Some 9999) 0 = Some example_start
   \<and> list_all (\<lambda>c. crashCode c \<noteq> Some 0) [example_crash1, example_crash2]
   \<and> crashCode example_crash3 \<noteq> Some 0
   \<and> int (length [example_crash1, example_crash2]) = maxRestarts example_opts
   \<and> withinWindow ([example_crash1, example_crash2] @ [example_crash3])
   \<and> length (spawns (run example_opts example_process example_start
         (cycles (take 2 [example_crash1, example_crash2])))) = 3
   \<and> status (state (step example_opts example_process
         (run example_opts example_process example_start
           (cycles [example_crash1, example_crash2])) (exitOf example_crash3))) = GaveUp
   \<and> giveUps (step example_opts example_process
         (run example_opts example_process example_start
           (cycles [example_crash1, example_crash2])) (exitOf example_crash3)) = 1
   \<and> length (spawns (run example_opts example_process
         (step example_opts example_process
           (run example_opts example_process example_start
             (cycles [example_crash1, example_crash2])) (exitOf example_crash3))
         [TimerFired (Some 5) 9999])) = 3
   \<and> sorted (restartTimestamps example_restarted)
   \<and> restartTimestamps (snd (isRateLimited example_opts 4000000 example_restarted)) = []"
proof -
  have a: "\<forall>c\<in>set [example_crash1, example_crash2]. crashCode c \<noteq> Some 0"
    by (simp add: example_crash1_def example_crash2_def)
  have b: "crashCode example_crash3 \<noteq> Some 0" by (simp add: example_crash3_def)
  have c: "int (length [example_crash1, example_crash2]) = maxRestarts example_opts"
    by (simp add: example_opts_def maxRestarts_def)
  have d: "withinWindow ([example_crash1, example_crash2] @ [example_crash3])"
    by (simp add: example_crash1_def example_crash2_def example_crash3_def
        RESTART_WINDOW_MS_def)
  have k: "(2::nat) \<le> length [example_crash1, example_crash2]" by simp
  have ts: "restartTimestamps example_restarted = [10]"
    by (simp add: example_restarted_def example_defs handler_defs Let_def)
  note th = gives_up_on_crash_after_cap [OF example_start_eq a b c,
      where k = 2 and evs = "[TimerFired (Some 5) 9999]" and t = 4000000
        and w = example_restarted, unfolded Let_def]
  have srt: "sorted (restartTimestamps example_restarted)" by (simp add: ts)
  from th srt have "restartTimestamps (snd (isRateLimited example_opts 4000000
        example_restarted))
      = filter (\<lambda>x. 4000000 - x \<le> RESTART_WINDOW_MS) (restartTimestamps example_restarted)"
    by blast
  then have pruned: "restartTimestamps (snd (isRateLimited example_opts 4000000
        example_restarted)) = []"
    by (simp add: ts RESTART_WINDOW_MS_def)
  from th k have e: "length (spawns (run example_opts example_process example_start
         (cycles (take 2 [example_crash1, example_crash2])))) = Suc 2" by blast
  from th d have f: "status (state (step example_opts example_process
         (run example_opts example_process example_start
           (cycles [example_crash1, example_crash2])) (exitOf example_crash3))) = GaveUp
   \<and> giveUps (step example_opts example_process
         (run example_opts example_process example_start
           (cycles [example_crash1, example_crash2])) (exitOf example_crash3)) = 1
   \<and> length (spawns (run example_opts example_process
         (step example_opts example_process
           (run example_opts example_process example_start
             (cycles [example_crash1, example_crash2])) (exitOf example_crash3))
         [TimerFired (Some 5) 9999])) = Suc (length [example_crash1, example_crash2])"
    by blast
  have g: "list_all (\<lambda>c. crashCode c \<noteq> Some 0) [example_crash1, example_crash2]"
    using a by (simp add: list_all_iff)
  have n3: "Suc (length [example_crash1, example_crash2]) = 3" "Suc 2 = 3" by simp_all
  show ?thesis using example_start_eq g b c d e f srt pruned unfolding n3 by blast
qed

subsection \<open>The state store\<close>

text \<open>
  C7. \<open>readWatchdogState\<close> never throws: whatever the directory, the file system and
  the behaviour of \<^verbatim>\<open>JSON.parse\<close>, its result is a value. It is \<^verbatim>\<open>null\<close> when
  there is no state file and when the contents of the file do not parse, and it is the
  parsed value otherwise.
\<close>

theorem readWatchdogState_never_throws:
  "readWatchdogState pf parse dir fs \<noteq> Inl e
   \<and> (files fs (resolveWatchdogStatePath pf dir) = None \<longrightarrow>
        readWatchdogState pf parse dir fs = Inr None)
   \<and> (files fs (resolveWatchdogStatePath pf dir) = Some content \<and> parse content = Inl err \<longrightarrow>
        readWatchdogState pf parse dir fs = Inr None)
   \<and> (files fs (resolveWatchdogStatePath pf dir) = Some content \<and> parse content = Inr v \<longrightarrow>
        readWatchdogState pf parse dir fs = Inr (Some v))"
  by (auto simp: readWatchdogState_def readFileSync_def Let_def split: option.splits sum.splits)

theorem readWatchdogState_never_throws_witness:
  "files example_files (resolveWatchdogStatePath example_platform None) = None
   \<and> readWatchdogState example_platform example_parse None example_files = Inr None
   \<and> files example_files (resolveWatchdogStatePath example_platform (Some ''/tmp/wd''))
       = Some ''not json''
   \<and> example_parse ''not json'' = Inl SyntaxError
   \<and> readWatchdogState example_platform example_parse (Some ''/tmp/wd'') example_files
       = Inr None
   \<and> files example_files (resolveWatchdogStatePath example_platform (Some ''/tmp/ok''))
       = Some ''42''
   \<and> example_parse ''42'' = Inr 42
   \<and> readWatchdogState example_platform example_parse (Some ''/tmp/ok'') example_files
       = Inr (Some 42)"
proof -
  have a: "files example_files (resolveWatchdogStatePath example_platform None) = None"
    by (simp add: example_files_def example_platform_def resolveWatchdogStatePath_def)
  have b: "files example_files (resolveWatchdogStatePath example_platform (Some ''/tmp/wd''))
      = Some ''not json''"
    by (simp add: example_files_def example_platform_def resolveWatchdogStatePath_def)
  have c: "example_parse ''not json'' = Inl SyntaxError" by (simp add: example_parse_def)
  have d: "files example_files (resolveWatchdogStatePath example_platform (Some ''/tmp/ok''))
      = Some ''42''"
    by (simp add: example_files_def example_platform_def resolveWatchdogStatePath_def)
  have e: "example_parse ''42'' = Inr 42" by (simp add: example_parse_def)
  note t1 = readWatchdogState_never_throws [of example_platform example_parse None
      example_files]
  note t2 = readWatchdogState_never_throws [of example_platform example_parse
      "Some ''/tmp/wd''" example_files _ "''not json''" SyntaxError]
  note t3 = readWatchdogState_never_throws [of example_platform example_parse
      "Some ''/tmp/ok''" example_files _ "''42''" _ 42]
  from t1 a have r1: "readWatchdogState example_platform example_parse None example_files
      = Inr None" by blast
  from t2 b c have r2: "readWatchdogState example_platform example_parse (Some ''/tmp/wd'')
      example_files = Inr None" by blast
  from t3 d e have r3: "readWatchdogState example_platform example_parse (Some ''/tmp/ok'')
      example_files = Inr (Some 42)" by blast
  show ?thesis using a b c d e r1 r2 r3 by blast
qed

subsection \<open>Reading back what was printed\<close>



























end
